theory Spec2Isabelle
  imports Main "HOL-Library.Sublist"
begin

section \<open>JavaScript strings\<close>

text \<open>
  A JavaScript string is a sequence of UTF-16 code units; \<open>length\<close>, \<open>slice\<close>,
  \<open>lastIndexOf\<close> and regular expressions without the \<open>u\<close> flag all count and match
  code units.  A code unit is modelled by its number (an integer, so that comparisons of
  code units are comparisons of binary numerals), a string by the list of its code units.  ASCII literals of the source are written \<open>asc ''...''\<close>; other glyphs are
  written by their code unit in hexadecimal.
\<close>

type_synonym jschar = int
type_synonym jsstring = "jschar list"

definition asc :: "string \<Rightarrow> jsstring" where
  "asc s = map of_char s"

text \<open>The characters \<open>\s\<close> and \<open>String.prototype.trim\<close> treat as white space.\<close>

definition isWhiteSpace :: "jschar \<Rightarrow> bool" where
  "isWhiteSpace c \<longleftrightarrow>
     c = 0x09 \<or> c = 0x0A \<or> c = 0x0B \<or> c = 0x0C \<or> c = 0x0D \<or> c = 0x20 \<or> c = 0xA0 \<or>
     c = 0x1680 \<or> (0x2000 \<le> c \<and> c \<le> 0x200A) \<or> c = 0x2028 \<or> c = 0x2029 \<or>
     c = 0x202F \<or> c = 0x205F \<or> c = 0x3000 \<or> c = 0xFEFF"

text \<open>Line terminators: \<open>.\<close> does not match them, and with the \<open>m\<close> flag \<open>^\<close> matches
  after one and \<open>$\<close> before one.\<close>

definition isLineTerminator :: "jschar \<Rightarrow> bool" where
  "isLineTerminator c \<longleftrightarrow> c = 0x0A \<or> c = 0x0D \<or> c = 0x2028 \<or> c = 0x2029"

definition isDot :: "jschar \<Rightarrow> bool" where
  "isDot c \<longleftrightarrow> \<not> isLineTerminator c"

definition isDigit :: "jschar \<Rightarrow> bool" where
  "isDigit c \<longleftrightarrow> 0x30 \<le> c \<and> c \<le> 0x39"

definition isWordChar :: "jschar \<Rightarrow> bool" where
  "isWordChar c \<longleftrightarrow>
     (0x41 \<le> c \<and> c \<le> 0x5A) \<or> (0x61 \<le> c \<and> c \<le> 0x7A) \<or> isDigit c \<or> c = 0x5F"

definition trim :: "jsstring \<Rightarrow> jsstring" where
  "trim s = rev (dropWhile isWhiteSpace (rev (dropWhile isWhiteSpace s)))"

text \<open>\<open>s.split(sep)\<close> for a one-character separator: never the empty list.\<close>

fun split_on :: "jschar \<Rightarrow> jsstring \<Rightarrow> jsstring list" where
  "split_on sep [] = [[]]"
| "split_on sep (c # cs) =
     (if c = sep then [] # split_on sep cs
      else (case split_on sep cs of [] \<Rightarrow> [[c]] | l # ls \<Rightarrow> (c # l) # ls))"

fun join :: "jsstring \<Rightarrow> jsstring list \<Rightarrow> jsstring" where
  "join sep [] = []"
| "join sep [l] = l"
| "join sep (l # m # ls) = l @ sep @ join sep (m # ls)"

text \<open>\<open>s.includes(needle)\<close>.\<close>

fun js_includes :: "jsstring \<Rightarrow> jsstring \<Rightarrow> bool" where
  "js_includes [] needle = (needle = [])"
| "js_includes (c # cs) needle = (prefix needle (c # cs) \<or> js_includes cs needle)"

text \<open>\<open>s.lastIndexOf(needle)\<close>: the scan runs over every start position \<open>i\<close> of \<open>s\<close>
  (the position after the last character included) and keeps the last one at which
  \<open>needle\<close> begins; \<open>None\<close> is JavaScript's \<open>-1\<close>.\<close>

fun lastIndexFrom :: "jsstring \<Rightarrow> jsstring \<Rightarrow> nat \<Rightarrow> nat option \<Rightarrow> nat option" where
  "lastIndexFrom needle [] i found = (if needle = [] then Some i else found)"
| "lastIndexFrom needle (c # cs) i found =
     lastIndexFrom needle cs (i + 1) (if prefix needle (c # cs) then Some i else found)"

definition lastIndexOf :: "jsstring \<Rightarrow> jsstring \<Rightarrow> nat option" where
  "lastIndexOf s needle = lastIndexFrom needle s 0 None"

text \<open>\<open>s.slice(-n)\<close> for \<open>n \<ge> 0\<close>: the last \<open>n\<close> elements, and everything when
  \<open>n = 0\<close> (\<open>slice(-0)\<close> is \<open>slice(0)\<close>) or when \<open>s\<close> is shorter.  The same function
  serves for strings and for arrays.\<close>

definition slice_last :: "nat \<Rightarrow> 'a list \<Rightarrow> 'a list" where
  "slice_last n s = (if n = 0 then s else drop (length s - n) s)"

section \<open>Regular expressions\<close>

text \<open>
  Each pattern of the table \<open>PATTERNS\<close> is written as the backtracking matcher it
  denotes.  \<open>star_then C K\<close> is \<open>C*\<close> followed by the rest of the pattern \<open>K\<close>,
  \<open>plus_then C K\<close> is \<open>C+\<close> followed by \<open>K\<close>, \<open>opt_then c K\<close> is \<open>c?\<close> followed by
  \<open>K\<close>; all are anchored at the head of their argument.
\<close>

fun star_then :: "(jschar \<Rightarrow> bool) \<Rightarrow> (jsstring \<Rightarrow> bool) \<Rightarrow> jsstring \<Rightarrow> bool" where
  "star_then C K [] = K []"
| "star_then C K (c # cs) = ((C c \<and> star_then C K cs) \<or> K (c # cs))"

fun plus_then :: "(jschar \<Rightarrow> bool) \<Rightarrow> (jsstring \<Rightarrow> bool) \<Rightarrow> jsstring \<Rightarrow> bool" where
  "plus_then C K [] = False"
| "plus_then C K (c # cs) = (C c \<and> star_then C K cs)"

fun opt_then :: "jschar \<Rightarrow> (jsstring \<Rightarrow> bool) \<Rightarrow> jsstring \<Rightarrow> bool" where
  "opt_then x K [] = K []"
| "opt_then x K (c # cs) = ((c = x \<and> K cs) \<or> K (c # cs))"

definition any_then :: "jsstring \<Rightarrow> bool" where
  "any_then r = True"

definition starts_with_char :: "(jschar \<Rightarrow> bool) \<Rightarrow> jsstring \<Rightarrow> bool" where
  "starts_with_char C r = (case r of [] \<Rightarrow> False | c # _ \<Rightarrow> C c)"

text \<open>\<open>$\<close> under the \<open>m\<close> flag: the end of the input, or just before a line terminator.\<close>

definition at_line_end :: "jsstring \<Rightarrow> bool" where
  "at_line_end r = (case r of [] \<Rightarrow> True | c # _ \<Rightarrow> isLineTerminator c)"

text \<open>\<open>^\<close> under the \<open>m\<close> flag matches at the start of the input and after every line
  terminator: \<open>line_starts s\<close> lists the rest of the input at each of these positions,
  and \<open>test_m P s\<close> is \<open>/^P/m.test(s)\<close>.\<close>

fun after_terminators :: "jsstring \<Rightarrow> jsstring list" where
  "after_terminators [] = []"
| "after_terminators (c # cs) =
     (if isLineTerminator c then cs # after_terminators cs else after_terminators cs)"

definition line_starts :: "jsstring \<Rightarrow> jsstring list" where
  "line_starts s = s # after_terminators s"

definition test_m :: "(jsstring \<Rightarrow> bool) \<Rightarrow> jsstring \<Rightarrow> bool" where
  "test_m P s = list_ex P (line_starts s)"

definition starts_with_any :: "jsstring list \<Rightarrow> jsstring \<Rightarrow> bool" where
  "starts_with_any alts r = list_ex (\<lambda>a. prefix a r) alts"

subsection \<open>The pattern table\<close>

text \<open>\<open>PROMPT: /^\<dots>\s*$/m\<close>, the glyph being U+276F.\<close>

definition PROMPT_at :: "jsstring \<Rightarrow> bool" where
  "PROMPT_at r = (case r of [] \<Rightarrow> False
     | c # cs \<Rightarrow> c = 0x276F \<and> star_then isWhiteSpace at_line_end cs)"

definition PROMPT :: "jsstring \<Rightarrow> bool" where
  "PROMPT s = test_m PROMPT_at s"

text \<open>\<open>PROMPT_RELAXED: /^\<dots>/m\<close>, the same glyph followed by anything.\<close>

definition PROMPT_RELAXED :: "jsstring \<Rightarrow> bool" where
  "PROMPT_RELAXED s = test_m (starts_with_char (\<lambda>c. c = 0x276F)) s"

text \<open>\<open>USER_INPUT: /^\<dots>\s+.+/m\<close>, the prompt glyph U+276F followed by text.\<close>

definition USER_INPUT_at :: "jsstring \<Rightarrow> bool" where
  "USER_INPUT_at r = (case r of [] \<Rightarrow> False
     | c # cs \<Rightarrow> c = 0x276F \<and> plus_then isWhiteSpace (plus_then isDot any_then) cs)"

definition USER_INPUT :: "jsstring \<Rightarrow> bool" where
  "USER_INPUT s = test_m USER_INPUT_at s"

text \<open>\<open>PROCESSING: /^\<dots>\s+.+/m\<close>, the spinner glyph U+273D followed by text.\<close>

definition PROCESSING_at :: "jsstring \<Rightarrow> bool" where
  "PROCESSING_at r = (case r of [] \<Rightarrow> False
     | c # cs \<Rightarrow> c = 0x273D \<and> plus_then isWhiteSpace (plus_then isDot any_then) cs)"

definition PROCESSING :: "jsstring \<Rightarrow> bool" where
  "PROCESSING s = test_m PROCESSING_at s"

text \<open>\<open>RESPONSE: /^\<dots>\s+(.+)/m\<close>, the response glyph U+23FA.  \<open>line.match\<close> returns the
  first match, its group 1 being the text \<open>(.+)\<close> captured: \<open>\s+\<close> is greedy, and gives
  characters back one at a time until \<open>.+\<close> finds a character to start at; \<open>.+\<close> then
  runs to the next line terminator.\<close>

fun RESPONSE_ws :: "jsstring \<Rightarrow> jsstring option" where
  "RESPONSE_ws [] = None"
| "RESPONSE_ws (c # cs) =
     (if isWhiteSpace c then
        (case RESPONSE_ws cs of
           Some g \<Rightarrow> Some g
         | None \<Rightarrow> if isDot c then Some (takeWhile isDot (c # cs)) else None)
      else if isDot c then Some (takeWhile isDot (c # cs)) else None)"

definition RESPONSE_at :: "jsstring \<Rightarrow> jsstring option" where
  "RESPONSE_at r = (case r of
       c # w # cs \<Rightarrow> if c = 0x23FA \<and> isWhiteSpace w then RESPONSE_ws cs else None
     | _ \<Rightarrow> None)"

fun first_match :: "(jsstring \<Rightarrow> jsstring option) \<Rightarrow> jsstring list \<Rightarrow> jsstring option" where
  "first_match M [] = None"
| "first_match M (r # rs) = (case M r of Some g \<Rightarrow> Some g | None \<Rightarrow> first_match M rs)"

definition RESPONSE_match :: "jsstring \<Rightarrow> jsstring option" where
  "RESPONSE_match s = first_match RESPONSE_at (line_starts s)"

text \<open>\<open>TOOL_START: /^[\<dots>]\s*\w+/m\<close>.  The class is written with seven emoji (U+1F527,
  U+1F4C1, U+1F4DD, U+1F4BB, U+1F50D, U+1F310, U+26A1); the pattern has no \<open>u\<close> flag, so
  the class holds the code units of their surrogate pairs, and matches one code unit.\<close>

definition isToolStartUnit :: "jschar \<Rightarrow> bool" where
  "isToolStartUnit c \<longleftrightarrow>
     c = 0xD83D \<or> c = 0xDD27 \<or> c = 0xDCC1 \<or> c = 0xDCDD \<or> c = 0xDCBB \<or> c = 0xDD0D \<or>
     c = 0xD83C \<or> c = 0xDF10 \<or> c = 0x26A1"

definition TOOL_START_at :: "jsstring \<Rightarrow> bool" where
  "TOOL_START_at r = (case r of [] \<Rightarrow> False
     | c # cs \<Rightarrow> isToolStartUnit c \<and> star_then isWhiteSpace (plus_then isWordChar any_then) cs)"

definition TOOL_START :: "jsstring \<Rightarrow> bool" where
  "TOOL_START s = test_m TOOL_START_at s"

text \<open>\<open>CLAUDE_TOOL: /^[\<dots>]\s*(Read|Write|\<dots>)/m\<close>, the class being the four bullets
  U+25CF, U+25CB, U+25C9, U+25D0.\<close>

definition isBullet :: "jschar \<Rightarrow> bool" where
  "isBullet c \<longleftrightarrow> c = 0x25CF \<or> c = 0x25CB \<or> c = 0x25C9 \<or> c = 0x25D0"

definition toolNames :: "jsstring list" where
  "toolNames = map asc [''Read'', ''Write'', ''Edit'', ''Bash'', ''Glob'', ''Grep'',
     ''WebFetch'', ''WebSearch'', ''Task'', ''TodoWrite'', ''NotebookEdit'',
     ''AskUserQuestion'']"

definition CLAUDE_TOOL_at :: "jsstring \<Rightarrow> bool" where
  "CLAUDE_TOOL_at r = (case r of [] \<Rightarrow> False
     | c # cs \<Rightarrow> isBullet c \<and> star_then isWhiteSpace (starts_with_any toolNames) cs)"

definition CLAUDE_TOOL :: "jsstring \<Rightarrow> bool" where
  "CLAUDE_TOOL s = test_m CLAUDE_TOOL_at s"

text \<open>\<open>TOOL_OUTPUT: /^[\s\<dots>]+/\<close>: white space or one of seven box-drawing characters
  (U+2502, U+2514, U+251C, U+2500, U+252C, U+2534, U+253C) at the start of the input.\<close>

definition isToolOutputBox :: "jschar \<Rightarrow> bool" where
  "isToolOutputBox c \<longleftrightarrow>
     c = 0x2502 \<or> c = 0x2514 \<or> c = 0x251C \<or> c = 0x2500 \<or> c = 0x252C \<or> c = 0x2534 \<or>
     c = 0x253C"

definition TOOL_OUTPUT :: "jsstring \<Rightarrow> bool" where
  "TOOL_OUTPUT s = starts_with_char (\<lambda>c. isWhiteSpace c \<or> isToolOutputBox c) s"

text \<open>\<open>COLLAPSED: /^\<dots>\s*\+?\d+\s*lines?/\<close>, beginning with the ellipsis U+2026.\<close>

definition COLLAPSED :: "jsstring \<Rightarrow> bool" where
  "COLLAPSED s = (case s of [] \<Rightarrow> False
     | c # cs \<Rightarrow> c = 0x2026 \<and>
         star_then isWhiteSpace
           (opt_then 0x2B
             (plus_then isDigit (star_then isWhiteSpace (prefix (asc ''line''))))) cs)"

text \<open>\<open>TOOL_RUNNING\<close>, \<open>TOOL_END\<close>, \<open>ERROR\<close>, \<open>USAGE\<close>: alternatives at a line start.
  The glyphs are U+2713, U+2705, U+26A0 U+FE0F, U+274C.\<close>

definition TOOL_RUNNING :: "jsstring \<Rightarrow> bool" where
  "TOOL_RUNNING s = test_m (starts_with_any (map asc
     [''Running'', ''Executing'', ''Reading'', ''Writing'', ''Searching''])) s"

definition TOOL_END :: "jsstring \<Rightarrow> bool" where
  "TOOL_END s = test_m (starts_with_any
     [asc ''Done'', [0x2713], [0x2705], asc ''Error:'', [0x26A0, 0xFE0F], [0x274C],
      asc ''Failed:'']) s"

definition ERROR_at :: "jsstring \<Rightarrow> bool" where
  "ERROR_at r \<longleftrightarrow>
     starts_with_any [asc ''Error:'', [0x274C], asc ''Failed:''] r \<or>
     (prefix [0x26A0, 0xFE0F] r \<and> star_then isWhiteSpace (prefix (asc ''Error'')) (drop 2 r))"

definition ERROR :: "jsstring \<Rightarrow> bool" where
  "ERROR s = test_m ERROR_at s"

definition USAGE :: "jsstring \<Rightarrow> bool" where
  "USAGE s = test_m (starts_with_any (map asc [''Usage:'', ''Tokens:'', ''Cost:''])) s"

text \<open>\<open>SEPARATOR: /^[\<dots>]{5,}/m\<close>: five horizontal rules (U+2500, U+2501, U+2550) at a
  line start.\<close>

definition isRule :: "jschar \<Rightarrow> bool" where
  "isRule c \<longleftrightarrow> c = 0x2500 \<or> c = 0x2501 \<or> c = 0x2550"

definition SEPARATOR_at :: "jsstring \<Rightarrow> bool" where
  "SEPARATOR_at r \<longleftrightarrow> 5 \<le> length r \<and> list_all isRule (take 5 r)"

definition SEPARATOR :: "jsstring \<Rightarrow> bool" where
  "SEPARATOR s = test_m SEPARATOR_at s"

text \<open>\<open>BOX_CHARS: /[\<dots>]/g\<close>, thirteen box-drawing characters, and
  \<open>TABLE_BORDER: /^[\<dots>\s]+$/\<close>, a non-empty input made of them and of white space only.
  \<open>BOX_CHARS.test\<close> starts at the pattern's \<open>lastIndex\<close>, which is 0 at each call:
  a failed \<open>test\<close> resets it, and a successful one is followed by \<open>replace\<close> with the
  same pattern, which resets it too.\<close>

definition isBoxChar :: "jschar \<Rightarrow> bool" where
  "isBoxChar c \<longleftrightarrow>
     c = 0x2502 \<or> c = 0x251C \<or> c = 0x2524 \<or> c = 0x252C \<or> c = 0x2534 \<or> c = 0x253C \<or>
     c = 0x250C \<or> c = 0x2510 \<or> c = 0x2514 \<or> c = 0x2518 \<or> c = 0x2500 \<or> c = 0x2501 \<or>
     c = 0x2550"

definition BOX_CHARS :: "jsstring \<Rightarrow> bool" where
  "BOX_CHARS s = list_ex isBoxChar s"

definition TABLE_BORDER :: "jsstring \<Rightarrow> bool" where
  "TABLE_BORDER s \<longleftrightarrow> s \<noteq> [] \<and> list_all (\<lambda>c. isBoxChar c \<or> isWhiteSpace c) s"

text \<open>\<open>UI_CHROME\<close>: one of ten block or ornament glyphs, or U+00B7 followed by white
  space, at the start of the input.\<close>

definition isChromeGlyph :: "jschar \<Rightarrow> bool" where
  "isChromeGlyph c \<longleftrightarrow>
     c = 0x2590 \<or> c = 0x259D \<or> c = 0x259C \<or> c = 0x259B \<or> c = 0x2598 \<or> c = 0x2588 \<or>
     c = 0x2591 \<or> c = 0x2592 \<or> c = 0x2593 \<or> c = 0x2722"

definition UI_CHROME :: "jsstring \<Rightarrow> bool" where
  "UI_CHROME s = (case s of [] \<Rightarrow> False
     | c # cs \<Rightarrow> isChromeGlyph c \<or> (c = 0xB7 \<and> starts_with_char isWhiteSpace cs))"

text \<open>\<open>PERMISSION_PROMPT: /^(Do you want to|Allow|\<dots>)/i\<close>.  Without the \<open>u\<close> flag,
  ignoring case compares the upper-case forms of single code units, and never maps a
  code unit from 128 on to an ASCII one: the ASCII letters of the alternatives match
  their two ASCII forms only.\<close>

definition upperAscii :: "jschar \<Rightarrow> jschar" where
  "upperAscii c = (if 0x61 \<le> c \<and> c \<le> 0x7A then c - 0x20 else c)"

definition PERMISSION_PROMPT :: "jsstring \<Rightarrow> bool" where
  "PERMISSION_PROMPT s = starts_with_any
     (map (map upperAscii \<circ> asc) [''Do you want to'', ''Allow'', ''Approve'', ''Confirm'',
        ''Accept'', ''Would you like to''])
     (map upperAscii s)"

text \<open>\<open>EDIT_FILE: /^Edit\s+(file\s+)?[\w\/\.\-]+/\<close>.\<close>

definition isPathChar :: "jschar \<Rightarrow> bool" where
  "isPathChar c \<longleftrightarrow> isWordChar c \<or> c = 0x2F \<or> c = 0x2E \<or> c = 0x2D"

definition EDIT_FILE :: "jsstring \<Rightarrow> bool" where
  "EDIT_FILE s \<longleftrightarrow> prefix (asc ''Edit'') s \<and>
     plus_then isWhiteSpace
       (\<lambda>r. (prefix (asc ''file'') r \<and>
               plus_then isWhiteSpace (starts_with_char isPathChar) (drop 4 r)) \<or>
            starts_with_char isPathChar r)
       (drop 4 s)"

text \<open>\<open>DIFF_LINE: /^\d+\s*[+\-]/\<close> and \<open>MENU_OPTION: /^\s*[>\s]*\d+\.\s+/\<close>.\<close>

definition DIFF_LINE :: "jsstring \<Rightarrow> bool" where
  "DIFF_LINE s =
     plus_then isDigit
       (star_then isWhiteSpace (starts_with_char (\<lambda>c. c = 0x2B \<or> c = 0x2D))) s"

definition MENU_OPTION :: "jsstring \<Rightarrow> bool" where
  "MENU_OPTION s =
     star_then isWhiteSpace
       (star_then (\<lambda>c. c = 0x3E \<or> isWhiteSpace c)
         (plus_then isDigit
           (\<lambda>r. case r of [] \<Rightarrow> False
              | d # r' \<Rightarrow> d = 0x2E \<and> starts_with_char isWhiteSpace r'))) s"

section \<open>The output sanitizer (\<open>parser.ts\<close>: \<open>stripAnsi\<close>, \<open>cleanOutput\<close>)\<close>

text \<open>\<open>star_rest C K\<close> is the greedy \<open>C*\<close> followed by \<open>K\<close>, returning what \<open>K\<close> leaves
  of the input: the longest run of \<open>C\<close> first, then one character less, and so on.\<close>

fun star_rest :: "(jschar \<Rightarrow> bool) \<Rightarrow> (jsstring \<Rightarrow> jsstring option) \<Rightarrow> jsstring \<Rightarrow> jsstring option" where
  "star_rest C K [] = K []"
| "star_rest C K (c # cs) =
     (if C c then (case star_rest C K cs of Some r \<Rightarrow> Some r | None \<Rightarrow> K (c # cs))
      else K (c # cs))"

text \<open>\<open>ANSI: /\x1B(?:[@-Z\\-_]|\[[0-?]*[ -/]*[@-~])/g\<close>.  \<open>ansi_final\<close> is the last class
  \<open>[@-~]\<close>; \<open>ansi_seq\<close> matches what follows the escape character and returns the input
  after the escape sequence.\<close>

definition ansi_final :: "jsstring \<Rightarrow> jsstring option" where
  "ansi_final r = (case r of [] \<Rightarrow> None
     | f # rest \<Rightarrow> if 0x40 \<le> f \<and> f \<le> 0x7E then Some rest else None)"

definition ansi_seq :: "jsstring \<Rightarrow> jsstring option" where
  "ansi_seq r = (case r of [] \<Rightarrow> None
     | c # cs \<Rightarrow>
         if (0x40 \<le> c \<and> c \<le> 0x5A) \<or> (0x5C \<le> c \<and> c \<le> 0x5F) then Some cs
         else if c = 0x5B then
           star_rest (\<lambda>x. 0x30 \<le> x \<and> x \<le> 0x3F)
             (star_rest (\<lambda>x. 0x20 \<le> x \<and> x \<le> 0x2F) ansi_final) cs
         else None)"

text \<open>\<open>text.replace(PATTERNS.ANSI, "")\<close>: every escape sequence is removed, from left
  to right; an escape character that starts none stays.\<close>

function stripAnsi :: "jsstring \<Rightarrow> jsstring" where
  "stripAnsi [] = []"
| "stripAnsi (c # cs) =
     (if c = 0x1B then
        (case ansi_seq cs of Some rest \<Rightarrow> stripAnsi rest | None \<Rightarrow> c # stripAnsi cs)
      else c # stripAnsi cs)"
  by pat_completeness auto
termination
proof (relation "measure length")
  show "wf (measure length)" by (rule wf_measure)
next
  fix c :: jschar and cs rest :: jsstring
  assume seq: "ansi_seq cs = Some rest"
  have star: "length r' \<le> length s"
    if "\<And>r r'. K r = Some r' \<Longrightarrow> length r' \<le> length r" and "star_rest C K s = Some r'"
    for C K s r'
    using that(2)
  proof (induction s)
    case Nil
    then have "K [] = Some r'" by simp
    from that(1) [OF this] show ?case .
  next
    case (Cons d ds)
    show ?case
    proof (cases "C d \<and> star_rest C K ds \<noteq> None")
      case True
      then have "star_rest C K ds = Some r'" using Cons.prems by auto
      then show ?thesis using Cons.IH by simp
    next
      case False
      then have "K (d # ds) = Some r'" using Cons.prems by (auto split: option.splits)
      from that(1) [OF this] show ?thesis .
    qed
  qed
  have final: "length r' \<le> length r" if "ansi_final r = Some r'" for r r'
    using that by (auto simp: ansi_final_def split: list.splits if_splits)
  have inner: "length r' \<le> length r"
    if "star_rest (\<lambda>x. 0x20 \<le> x \<and> x \<le> 0x2F) ansi_final r = Some r'" for r r'
    using star [of ansi_final _ _ r'] final that by blast
  have outer: "length r' \<le> length r"
    if "star_rest (\<lambda>x. 0x30 \<le> x \<and> x \<le> 0x3F)
          (star_rest (\<lambda>x. 0x20 \<le> x \<and> x \<le> 0x2F) ansi_final) r = Some r'" for r r'
    using star [of "star_rest (\<lambda>x. 0x20 \<le> x \<and> x \<le> 0x2F) ansi_final" _ _ r'] inner that
    by blast
  have "length rest \<le> length cs"
  proof (cases cs)
    case Nil
    then show ?thesis using seq by (simp add: ansi_seq_def)
  next
    case (Cons d ds)
    show ?thesis
    proof (cases "d = 0x5B")
      case True
      then have "star_rest (\<lambda>x. 0x30 \<le> x \<and> x \<le> 0x3F)
            (star_rest (\<lambda>x. 0x20 \<le> x \<and> x \<le> 0x2F) ansi_final) ds = Some rest"
        using seq Cons by (simp add: ansi_seq_def)
      from outer [OF this] show ?thesis using Cons by simp
    next
      case False
      then have "rest = ds" using seq Cons by (auto simp: ansi_seq_def split: if_splits)
      then show ?thesis using Cons by simp
    qed
  qed
  then show "(rest, c # cs) \<in> measure length" by simp
next
  fix c :: jschar and cs :: jsstring
  show "(cs, c # cs) \<in> measure length" by simp
next
  fix c :: jschar and cs :: jsstring
  show "(cs, c # cs) \<in> measure length" by simp
qed

definition lastPart :: "jsstring list \<Rightarrow> jsstring" where
  "lastPart parts = (case rev parts of [] \<Rightarrow> [] | l # _ \<Rightarrow> l)"

definition cleanOutput :: "jsstring \<Rightarrow> jsstring" where
  "cleanOutput raw =
     join [0x0A]
       (map (\<lambda>line. if 0x0D \<in> set line then lastPart (split_on 0x0D line) else line)
          (split_on 0x0A (stripAnsi raw)))"

section \<open>The streaming output parser (\<open>parser.ts\<close>: \<open>TerminalOutputParser\<close>)\<close>

datatype ParseState = IDLE | THINKING | TOOL_USE | TEXT_OUTPUT | WAITING_INPUT | COMPLETE

datatype BlockType = B_thinking | B_tool | B_text | B_prompt | B_error

text \<open>A \<open>ParsedBlock\<close>; the parser never sets the optional \<open>metadata\<close>.\<close>

record ParsedBlock =
  btype :: BlockType
  content :: jsstring

text \<open>The fields of a \<open>TerminalOutputParser\<close>.  Times are milliseconds since the epoch,
  as \<open>Date.now()\<close> returns them.\<close>

record parser =
  state :: ParseState
  buffer :: jsstring
  processedLength :: nat
  blocks :: "ParsedBlock list"
  textAccumulator :: jsstring
  currentBlockContent :: jsstring
  promptDetectedAt :: int
  lastPromptCheck :: int

text \<open>A new \<open>TerminalOutputParser\<close>: the field initialisers.\<close>

definition newParser :: parser where
  "newParser = \<lparr> state = IDLE, buffer = [], processedLength = 0, blocks = [],
     textAccumulator = [], currentBlockContent = [], promptDetectedAt = 0,
     lastPromptCheck = 0 \<rparr>"

definition push :: "ParsedBlock list \<Rightarrow> BlockType \<Rightarrow> jsstring \<Rightarrow> ParsedBlock list" where
  "push bs t c = bs @ [\<lparr> btype = t, content = c \<rparr>]"

text \<open>\<open>acc += (acc ? "\n" : "") + s\<close>.\<close>

definition appendLine :: "jsstring \<Rightarrow> jsstring \<Rightarrow> jsstring" where
  "appendLine acc s = acc @ (if acc \<noteq> [] then [0x0A] else []) @ s"

subsection \<open>The string rewrites of \<open>parseContent\<close>\<close>

text \<open>\<open>.replace(/\|{2,}/g, "|")\<close>: a run of bars becomes one bar.\<close>

fun collapseBars :: "jsstring \<Rightarrow> jsstring" where
  "collapseBars (c # d # cs) =
     (if c = 0x7C \<and> d = 0x7C then collapseBars (d # cs) else c # collapseBars (d # cs))"
| "collapseBars cs = cs"

text \<open>\<open>.replace(/^\||\|$/g, "")\<close>: a bar at the start goes, and a bar at the end of
  what is left.\<close>

definition stripEdgeBars :: "jsstring \<Rightarrow> jsstring" where
  "stripEdgeBars s =
     (let s1 = (case s of [] \<Rightarrow> [] | c # cs \<Rightarrow> if c = 0x7C then cs else s)
      in if s1 \<noteq> [] \<and> last s1 = 0x7C then butlast s1 else s1)"

text \<open>The table-cell rewrite: box characters become bars, runs of bars collapse,
  the edge bars go, and the result is trimmed.\<close>

definition boxClean :: "jsstring \<Rightarrow> jsstring" where
  "boxClean s =
     trim (stripEdgeBars (collapseBars (map (\<lambda>c. if isBoxChar c then 0x7C else c) s)))"

text \<open>\<open>trimmedLine.replace(/^[\<dots>]\s*/, "\<dots> ")\<close>: a leading bullet and the white space
  after it become the wrench emoji U+1F527 and a space.\<close>

definition toolLine :: "jsstring \<Rightarrow> jsstring" where
  "toolLine s = (case s of [] \<Rightarrow> []
     | c # cs \<Rightarrow> if isBullet c then [0xD83D, 0xDD27, 0x20] @ dropWhile isWhiteSpace cs else s)"

text \<open>\<open>trimmedLine.replace(/^[\<dots>]+\s*/, "  ")\<close>: leading box characters and the white
  space after them become two spaces.\<close>

definition toolOutputClean :: "jsstring \<Rightarrow> jsstring" where
  "toolOutputClean s = (case s of [] \<Rightarrow> []
     | c # cs \<Rightarrow>
         if isToolOutputBox c
         then [0x20, 0x20] @ dropWhile isWhiteSpace (dropWhile isToolOutputBox cs)
         else s)"

text \<open>The status-bar lines that are skipped.\<close>

definition statusBar :: "jsstring \<Rightarrow> bool" where
  "statusBar s = list_ex (js_includes s) (map asc
     [''for shortcuts'', ''shift+tab to cycle'', ''esc to interrupt'',
      ''Auto-update failed'', ''claude doctor'', ''npm i -g''])"

subsection \<open>\<open>parseContent\<close>\<close>

text \<open>
  \<open>parseContent\<close> runs over the lines of the new content.  One line takes the parser
  and the blocks of this call so far to the next ones; \<open>now\<close> is what \<open>Date.now()\<close>
  returns during the call.  The body of the loop is cut in three, in the source's
  order: the lines that are skipped (\<open>parseLine\<close>), the classified lines
  (\<open>classifyLine\<close>), and the accumulation by state of every other line
  (\<open>accumulateLine\<close>).
\<close>

definition accumulateLine ::
  "jsstring \<Rightarrow> jsstring \<Rightarrow> parser \<times> ParsedBlock list \<Rightarrow> parser \<times> ParsedBlock list" where
  "accumulateLine line cleanedLine pb =
     (let p = fst pb; bs = snd pb in
      case state p of
        THINKING \<Rightarrow>
          (p\<lparr>currentBlockContent := appendLine (currentBlockContent p) cleanedLine\<rparr>, bs)
      | TOOL_USE \<Rightarrow>
          (p, if cleanedLine \<noteq> [] \<and> \<not> USAGE line then push bs B_tool cleanedLine else bs)
      | _ \<Rightarrow>
          ((if cleanedLine \<noteq> [] \<and> \<not> USAGE line
            then p\<lparr>currentBlockContent := appendLine (currentBlockContent p) cleanedLine,
                   textAccumulator := appendLine (textAccumulator p) cleanedLine\<rparr>
            else p)\<lparr>state := TEXT_OUTPUT\<rparr>, bs))"

definition classifyLine ::
  "int \<Rightarrow> jsstring \<Rightarrow> jsstring \<Rightarrow> jsstring \<Rightarrow> parser \<times> ParsedBlock list
     \<Rightarrow> parser \<times> ParsedBlock list" where
  "classifyLine now line trimmedLine cleanedLine pb =
     (let p = fst pb; bs = snd pb; cur = currentBlockContent p in
      if CLAUDE_TOOL line then
        ((if cur \<noteq> [] then p\<lparr>currentBlockContent := []\<rparr> else p)\<lparr>state := TOOL_USE\<rparr>,
         push (if cur \<noteq> [] then push bs B_text (trim cur) else bs) B_tool (toolLine trimmedLine))
      else if state p = TOOL_USE \<and> TOOL_OUTPUT line then
        (let cleanedOutput = toolOutputClean trimmedLine in
         (p, if trim cleanedOutput \<noteq> [] \<and> \<not> COLLAPSED cleanedOutput
             then push bs B_tool cleanedOutput else bs))
      else if COLLAPSED line then
        (p, push bs B_tool ([0xD83D, 0xDCC4, 0x20] @ trimmedLine))
      else if EDIT_FILE trimmedLine then
        (p\<lparr>state := TOOL_USE\<rparr>, push bs B_tool ([0xD83D, 0xDCDD, 0x20] @ trimmedLine))
      else if DIFF_LINE trimmedLine then
        (p, push bs B_tool cleanedLine)
      else if PERMISSION_PROMPT trimmedLine then
        (p\<lparr>state := WAITING_INPUT\<rparr>, push bs B_text ([0x26A0, 0xFE0F, 0x20] @ trimmedLine))
      else if MENU_OPTION line then
        (p, push bs B_text cleanedLine)
      else if PROCESSING line then
        (p\<lparr>state := THINKING\<rparr>, push bs B_thinking trimmedLine)
      else
        (case RESPONSE_match line of
           Some responseText \<Rightarrow>
             (if responseText \<noteq> [] then
                (p\<lparr>textAccumulator := appendLine (textAccumulator p) responseText,
                   currentBlockContent := responseText,
                   state := TEXT_OUTPUT\<rparr>,
                 push bs B_text responseText)
              else (p, bs))
         | None \<Rightarrow>
             if USER_INPUT line then (p, bs)
             else if PROMPT line then
               ((if cur \<noteq> [] then p\<lparr>currentBlockContent := []\<rparr> else p)
                  \<lparr>state := COMPLETE, promptDetectedAt := now\<rparr>,
                push
                  (if cur \<noteq> [] then
                     (if state p = THINKING then push bs B_thinking (trim cur)
                      else if trim cur \<noteq> [] then push bs B_text (trim cur)
                      else bs)
                   else bs)
                  B_prompt trimmedLine)
             else if TOOL_START line \<or> TOOL_RUNNING line then
               (p\<lparr>currentBlockContent := [], state := TOOL_USE\<rparr>,
                push
                  (if cur \<noteq> [] \<and> state p = THINKING then push bs B_thinking (trim cur)
                   else if cur \<noteq> [] then push bs B_text (trim cur)
                   else bs)
                  B_tool trimmedLine)
             else if state p = TOOL_USE \<and> TOOL_END line then
               (p\<lparr>state := TEXT_OUTPUT\<rparr>,
                (let bs1 = push bs B_tool trimmedLine
                 in if ERROR line then push bs1 B_error trimmedLine else bs1))
             else if ERROR line then
               (p, push bs B_error trimmedLine)
             else accumulateLine line cleanedLine pb))"

definition parseLine ::
  "int \<Rightarrow> jsstring \<Rightarrow> parser \<times> ParsedBlock list \<Rightarrow> parser \<times> ParsedBlock list" where
  "parseLine now line pb =
     (let trimmedLine = trim line in
      if trimmedLine = [] \<or> SEPARATOR line then pb
      else if TABLE_BORDER trimmedLine then pb
      else if UI_CHROME trimmedLine then pb
      else
        (let cleanedLine =
               (if BOX_CHARS trimmedLine then boxClean trimmedLine else trimmedLine)
         in if BOX_CHARS trimmedLine \<and> cleanedLine = [] then pb
            else if statusBar trimmedLine then pb
            else classifyLine now line trimmedLine cleanedLine pb))"

text \<open>The loop, and the blocks of the call appended to the parser's list.\<close>

definition parseContent :: "int \<Rightarrow> jsstring \<Rightarrow> parser \<Rightarrow> parser \<times> ParsedBlock list" where
  "parseContent now chunk p =
     (let pb = fold (parseLine now) (split_on 0x0A chunk) (p, [])
      in ((fst pb)\<lparr>blocks := blocks (fst pb) @ snd pb\<rparr>, snd pb))"

subsection \<open>\<open>checkCompletion\<close>\<close>

text \<open>\<open>lastIndexOf\<close> as the integer JavaScript returns.\<close>

definition indexInt :: "nat option \<Rightarrow> int" where
  "indexInt r = (case r of None \<Rightarrow> - 1 | Some i \<Rightarrow> int i)"

definition markComplete :: "int \<Rightarrow> parser \<Rightarrow> parser" where
  "markComplete now p = p\<lparr>state := COMPLETE, promptDetectedAt := now\<rparr>"

definition checkCompletion :: "int \<Rightarrow> jsstring \<Rightarrow> parser \<Rightarrow> parser" where
  "checkCompletion now buf p =
     (let lines = filter (\<lambda>l. trim l \<noteq> []) (split_on 0x0A buf);
          lastLines = join [0x0A] (slice_last 5 lines)
      in if PROMPT lastLines then
           (let lastResponseIdx = indexInt (lastIndexOf buf [0x23FA]);
                lastToolIdx =
                  max (max (indexInt (lastIndexOf buf [0x25CF, 0x20]))
                           (indexInt (lastIndexOf buf [0x25CB, 0x20])))
                      (max (indexInt (lastIndexOf buf [0x25C9, 0x20]))
                           (indexInt (lastIndexOf buf [0x25D0, 0x20])))
            in if state p = TOOL_USE \<and> lastToolIdx > lastResponseIdx then p
               else if state p \<noteq> COMPLETE then markComplete now p
               else p)
         else if state p = TEXT_OUTPUT then
           (let lastFew = slice_last 4 lines
            in if list_ex SEPARATOR lastFew \<and> list_ex PROMPT_RELAXED lastFew
               then markComplete now p else p)
         else p)"

subsection \<open>\<open>feed\<close>\<close>

text \<open>The cursor after a displacement: the last \<open>overlapLen\<close> characters of the old
  buffer are looked for in the new text, and the cursor goes just after their last
  occurrence, or to zero when they do not occur.\<close>

definition displacedCursor :: "jsstring \<Rightarrow> jsstring \<Rightarrow> nat" where
  "displacedCursor buf cleaned =
     (let overlapLen = min (length buf) (min (length cleaned) 500);
          oldTail = slice_last overlapLen buf
      in case lastIndexOf cleaned oldTail of
           Some idx \<Rightarrow> idx + overlapLen
         | None \<Rightarrow> 0)"

text \<open>\<open>displaced\<close> is the test that content shifted rather than grew: the new text is
  not longer than the cursor and the 200-character tails differ.\<close>

definition displaced :: "jsstring \<Rightarrow> parser \<Rightarrow> bool" where
  "displaced cleaned p \<longleftrightarrow>
     slice_last 200 (buffer p) \<noteq> slice_last 200 cleaned \<and> length cleaned > 0"

definition feed :: "int \<Rightarrow> jsstring \<Rightarrow> parser \<Rightarrow> parser \<times> ParsedBlock list" where
  "feed now rawOutput p =
     (let cleaned = cleanOutput rawOutput in
      if length cleaned \<le> processedLength p \<and> buffer p \<noteq> [] \<and> \<not> displaced cleaned p
      then (checkCompletion now cleaned p, [])
      else
        (let p1 = (if length cleaned \<le> processedLength p \<and> buffer p \<noteq> []
                   then p\<lparr>processedLength := displacedCursor (buffer p) cleaned\<rparr>
                   else p)
         in if length cleaned \<le> processedLength p1
            then (checkCompletion now cleaned p1, [])
            else
              (let newContent = drop (processedLength p1) cleaned;
                   p2 = p1\<lparr>processedLength := length cleaned, buffer := cleaned\<rparr>;
                   parsed = parseContent now newContent p2
               in (checkCompletion now cleaned (fst parsed), snd parsed))))"

subsection \<open>The other methods\<close>

definition isComplete :: "int \<Rightarrow> parser \<Rightarrow> bool" where
  "isComplete now p \<longleftrightarrow>
     (if state p \<noteq> COMPLETE then False
      else (let timeSincePrompt = now - promptDetectedAt p in timeSincePrompt \<ge> 2000))"

text \<open>\<open>getTextResponse\<close> returns the trimmed accumulator, and the parser as the call
  leaves it.\<close>

definition getTextResponse :: "parser \<Rightarrow> jsstring \<times> parser" where
  "getTextResponse p =
     (let p' = (if currentBlockContent p \<noteq> []
                then p\<lparr>textAccumulator :=
                        appendLine (textAccumulator p) (currentBlockContent p)\<rparr>
                else p)
      in (trim (textAccumulator p'), p'))"

definition getBlocks :: "parser \<Rightarrow> ParsedBlock list" where
  "getBlocks p = blocks p"

definition getState :: "parser \<Rightarrow> ParseState" where
  "getState p = state p"

definition revokeCompletion :: "parser \<Rightarrow> parser" where
  "revokeCompletion p =
     (if state p = COMPLETE then p\<lparr>state := TEXT_OUTPUT, promptDetectedAt := 0\<rparr> else p)"

definition resetProcessedLength :: "parser \<Rightarrow> parser" where
  "resetProcessedLength p = p\<lparr>processedLength := 0, buffer := []\<rparr>"

definition reset :: "parser \<Rightarrow> parser" where
  "reset p = p\<lparr>state := IDLE, buffer := [], processedLength := 0, blocks := [],
     textAccumulator := [], currentBlockContent := [], promptDetectedAt := 0,
     lastPromptCheck := 0\<rparr>"

section \<open>The terminal control bridge (\<open>bridge.ts\<close>: \<open>TmuxBridge\<close>)\<close>

subsection \<open>Data\<close>

datatype Creator = telegram | cli

text \<open>Dates are milliseconds since the epoch; the JSON files store them as ISO strings,
  which keep the millisecond.\<close>

record TmuxSession =
  sessionName :: jsstring
  windowId :: jsstring
  paneId :: jsstring
  workingDir :: jsstring
  isRunning :: bool
  createdBy :: Creator
  isOwned :: bool
  markedForExit :: bool
  markedAt :: "int option"
  lastActivity :: int

text \<open>An entry of the session-metadata file, keyed by session name.\<close>

record SessionMetadata =
  metaCreatedBy :: Creator
  metaIsOwned :: bool
  metaMarkedForExit :: bool
  metaMarkedAt :: "int option"
  metaLastActivity :: int

record TmuxLock =
  lockSessionName :: jsstring
  acquiredAt :: int
  expiresAt :: int
  deviceInfo :: "jsstring option"

record TmuxBridgeConfig =
  sessionPrefix :: jsstring
  pollIntervalMs :: int
  maxPollTimeMs :: int
  claudePath :: jsstring
  configWorkingDir :: jsstring
  tmuxPath :: jsstring
  historyLimit :: int
  idleTimeoutMs :: int

text \<open>
  The session operations of the bridge, each with the clock readings it takes; their
  code follows below.  They are what other handlers of the bot (\<open>/new\<close>, the
  take-over of a session listed by \<open>/sessions\<close>, the cleanup timer) call on the same
  bridge object, also while a \<open>sendMessage\<close> is suspended at one of its \<open>await\<close>s.
\<close>

datatype bridgeOp =
    CreateSession int int "int list" "jsstring option" "jsstring option"
  | AttachToSession int int jsstring
  | MarkForExit int
  | KillSession jsstring
  | CleanupSession int jsstring

text \<open>
  What the bridge meets outside itself.  \<open>tmux k args\<close> is the outcome of the \<open>k\<close>-th
  tmux command the bridge runs, with arguments \<open>args\<close>: its output when it exits with
  code 0, \<open>None\<close> when it does not (\<open>executeTmux\<close> then throws).  \<open>statusCallback kind
  text\<close> is what awaiting the caller's callback brings: the session operations that
  other handlers ran on the bridge before the callback settled, and whether it returned
  (\<open>True\<close>) or threw.  \<open>TMUX_LOCK_TIMEOUT\<close> is the constant of \<open>config.ts\<close>, read from
  the process environment.  The three glyphs are the string literals that
  \<open>createSession\<close> and \<open>pollForResponse\<close> look for in the pane: the ready prompt, the
  processing indicator and the response indicator.
\<close>

record environment =
  tmux :: "nat \<Rightarrow> jsstring list \<Rightarrow> jsstring option"
  statusCallback :: "jsstring \<Rightarrow> jsstring \<Rightarrow> bridgeOp list \<times> bool"
  TMUX_LOCK_TIMEOUT :: int
  promptGlyph :: jsstring
  processingGlyph :: jsstring
  responseGlyph :: jsstring

text \<open>
  The fields of a \<open>TmuxBridge\<close>, the two JSON files it keeps, and the list of the tmux
  commands it has run.  \<open>polling\<close> is \<open>pollAbortController !== null\<close>.  A file is
  \<open>None\<close> when it does not exist or does not parse (the loaders then return the empty
  table), and otherwise the table it holds.  Writing a file succeeds.
\<close>

record bridge =
  config :: TmuxBridgeConfig
  currentSession :: "TmuxSession option"
  polling :: bool
  cleanupTimers :: "jsstring set"
  lastKnownPaneContent :: jsstring
  lockFile :: "(jsstring \<rightharpoonup> TmuxLock) option"
  sessionFile :: "(jsstring \<rightharpoonup> SessionMetadata) option"
  tmuxLog :: "jsstring list list"

datatype error =
    NoActiveSession
  | LockFailed
  | TmuxFailed
  | SessionNotFound
  | ResponseTimeout
  | ResponseCancelled
  | CallbackFailed
  | NullSession

subsection \<open>Tables read from the JSON files\<close>

text \<open>
  Both files hold one JSON object, keyed by session name; a table is the properties the
  object has of its own, which are what \<open>JSON.parse\<close> creates and what
  \<open>JSON.stringify\<close> writes.

  Reading \<open>table[name]\<close> for a name the object has no property of gives \<open>undefined\<close>,
  or, for the names of \<open>Object.prototype\<close> (\<open>__proto__\<close>, \<open>constructor\<close>,
  \<open>toString\<close>, \<dots>), an inherited object, which has none of the fields the bridge goes
  on to read: both read as an absent entry.

  \<open>assignKey\<close> is the assignment \<open>table[name] = value\<close>.  It updates a property the
  object has and adds one it has not, but for the name \<open>__proto__\<close>: when the object
  has no property of its own of that name, the assignment runs the setter inherited from
  \<open>Object.prototype\<close>, which makes the value the prototype of the object and adds
  no property, so that the object is written back as it was.
\<close>

definition assignKey :: "(jsstring \<rightharpoonup> 'v) \<Rightarrow> jsstring \<Rightarrow> 'v \<Rightarrow> (jsstring \<rightharpoonup> 'v)" where
  "assignKey table name v =
     (if name = asc ''__proto__'' \<and> table name = None then table else table(name \<mapsto> v))"

subsection \<open>Lock management\<close>

definition loadLocks :: "bridge \<Rightarrow> (jsstring \<rightharpoonup> TmuxLock)" where
  "loadLocks b = (case lockFile b of None \<Rightarrow> Map.empty | Some locks \<Rightarrow> locks)"

definition saveLocks :: "(jsstring \<rightharpoonup> TmuxLock) \<Rightarrow> bridge \<Rightarrow> bridge" where
  "saveLocks locks b = b\<lparr>lockFile := Some locks\<rparr>"

text \<open>The three clock readings of \<open>acquireLock\<close>: \<open>new Date()\<close> in the test of the
  existing lock, \<open>new Date()\<close> for the field \<open>acquiredAt\<close>, and \<open>Date.now()\<close> in the
  expression of the field \<open>expiresAt\<close>.\<close>

record lockClock =
  checkNow :: int
  acquireNow :: int
  expiryNow :: int

text \<open>\<open>acquireLock\<close>: \<open>None\<close> when a lock of the session is held and has not expired,
  else the new lock, assigned to the table, which is written to the lock file.\<close>

definition acquireLock ::
  "environment \<Rightarrow> lockClock \<Rightarrow> jsstring \<Rightarrow> bridge \<Rightarrow> TmuxLock option \<times> bridge" where
  "acquireLock env clock name b =
     (let locks = loadLocks b;
          held = (case locks name of
                    None \<Rightarrow> False
                  | Some existing \<Rightarrow> expiresAt existing > checkNow clock)
      in if held then (None, b)
         else
           (let lock = \<lparr> lockSessionName = name, acquiredAt = acquireNow clock,
                         expiresAt = expiryNow clock + TMUX_LOCK_TIMEOUT env,
                         deviceInfo = Some (asc ''telegram-bot'') \<rparr>
            in (Some lock, saveLocks (assignKey locks name lock) b)))"

text \<open>\<open>releaseLock\<close>: \<open>delete locks[name]\<close> removes a property the object has and does
  nothing otherwise.\<close>

definition releaseLock :: "jsstring \<Rightarrow> bridge \<Rightarrow> bridge" where
  "releaseLock name b = saveLocks ((loadLocks b)(name := None)) b"

subsection \<open>Running tmux\<close>

text \<open>\<open>executeTmux\<close>: the command is added to the log; \<open>None\<close> is the thrown error.\<close>

definition executeTmux ::
  "environment \<Rightarrow> jsstring list \<Rightarrow> bridge \<Rightarrow> jsstring option \<times> bridge" where
  "executeTmux env args b = (tmux env (length (tmuxLog b)) args, b\<lparr>tmuxLog := tmuxLog b @ [args]\<rparr>)"

text \<open>The pane of a session, \<open>name:window.pane\<close>.\<close>

definition paneTarget :: "TmuxSession \<Rightarrow> jsstring" where
  "paneTarget cs = sessionName cs @ asc '':'' @ windowId cs @ asc ''.'' @ paneId cs"

text \<open>The arguments \<open>sendKeys\<close> passes to tmux: the key \<open>Enter\<close> for the text
  \<open>"Enter"\<close>, and the text itself behind the literal flag \<open>-l\<close> for any other text.\<close>

definition sendKeysArgs :: "TmuxSession \<Rightarrow> jsstring \<Rightarrow> jsstring list" where
  "sendKeysArgs cs txt =
     (if txt = asc ''Enter''
      then [asc ''send-keys'', asc ''-t'', paneTarget cs, asc ''Enter'']
      else [asc ''send-keys'', asc ''-t'', paneTarget cs, asc ''-l'', txt])"

definition sendKeys :: "environment \<Rightarrow> jsstring \<Rightarrow> bridge \<Rightarrow> (error + unit) \<times> bridge" where
  "sendKeys env txt b =
     (case currentSession b of
        None \<Rightarrow> (Inr (), b)
      | Some cs \<Rightarrow>
          (let r = executeTmux env (sendKeysArgs cs txt) b
           in (case fst r of None \<Rightarrow> Inl TmuxFailed | Some _ \<Rightarrow> Inr (), snd r)))"

text \<open>\<open>String(n)\<close> for an integer.\<close>

function decimalDigits :: "int \<Rightarrow> jsstring" where
  "decimalDigits n =
     (if n < 10 then [0x30 + n] else decimalDigits (n div 10) @ [0x30 + n mod 10])"
  by pat_completeness auto
termination
  by (relation "measure nat") auto

definition decimal :: "int \<Rightarrow> jsstring" where
  "decimal n = (if n < 0 then 0x2D # decimalDigits (- n) else decimalDigits n)"

definition capturePane ::
  "environment \<Rightarrow> int option \<Rightarrow> bridge \<Rightarrow> (error + jsstring) \<times> bridge" where
  "capturePane env historyLines b =
     (case currentSession b of
        None \<Rightarrow> (Inr [], b)
      | Some cs \<Rightarrow>
          (let lines = (case historyLines of
                          None \<Rightarrow> historyLimit (config b)
                        | Some h \<Rightarrow> if h = 0 then historyLimit (config b) else h);
               r = executeTmux env
                     [asc ''capture-pane'', asc ''-t'', paneTarget cs, asc ''-p'', asc ''-S'',
                      asc ''-'' @ decimal lines] b
           in (case fst r of None \<Rightarrow> Inl TmuxFailed | Some out \<Rightarrow> Inr out, snd r)))"


subsection \<open>Session metadata\<close>

definition loadSessionMetadata :: "bridge \<Rightarrow> (jsstring \<rightharpoonup> SessionMetadata)" where
  "loadSessionMetadata b = (case sessionFile b of None \<Rightarrow> Map.empty | Some m \<Rightarrow> m)"

definition saveSessionMetadataRaw :: "(jsstring \<rightharpoonup> SessionMetadata) \<Rightarrow> bridge \<Rightarrow> bridge" where
  "saveSessionMetadataRaw m b = b\<lparr>sessionFile := Some m\<rparr>"

definition metadataOf :: "TmuxSession \<Rightarrow> SessionMetadata" where
  "metadataOf cs = \<lparr> metaCreatedBy = createdBy cs, metaIsOwned = isOwned cs,
     metaMarkedForExit = markedForExit cs, metaMarkedAt = markedAt cs,
     metaLastActivity = lastActivity cs \<rparr>"

definition saveSessionMetadata :: "bridge \<Rightarrow> bridge" where
  "saveSessionMetadata b =
     (case currentSession b of
        None \<Rightarrow> b
      | Some cs \<Rightarrow>
          saveSessionMetadataRaw
            (assignKey (loadSessionMetadata b) (sessionName cs) (metadataOf cs)) b)"

subsection \<open>Session management\<close>

text \<open>An element of a destructured array: \<open>undefined\<close> past the end, which every use
  below treats as the empty string (\<open>!x\<close>, \<open>x || default\<close>).\<close>

definition partAt :: "jsstring list \<Rightarrow> nat \<Rightarrow> jsstring" where
  "partAt parts k = (if k < length parts then parts ! k else [])"

definition orElse :: "jsstring \<Rightarrow> jsstring \<Rightarrow> jsstring" where
  "orElse x d = (if x = [] then d else x)"

text \<open>One line \<open>name:window:pane:path:pid\<close> of \<open>tmux list-sessions\<close>, joined with the
  saved metadata of the session; \<open>None\<close> when the name is empty.\<close>

definition sessionOfLine ::
  "TmuxBridgeConfig \<Rightarrow> (jsstring \<rightharpoonup> SessionMetadata) \<Rightarrow> int \<Rightarrow> jsstring \<Rightarrow> TmuxSession option" where
  "sessionOfLine cfg savedMetadata now line =
     (let parts = split_on 0x3A line;
          name = partAt parts 0;
          saved = savedMetadata name
      in if name = [] then None
         else Some \<lparr> sessionName = name,
                      windowId = orElse (partAt parts 1) (asc ''0''),
                      paneId = orElse (partAt parts 2) (asc ''0''),
                      workingDir = orElse (partAt parts 3) (configWorkingDir cfg),
                      isRunning = True,
                      createdBy = (case saved of None \<Rightarrow> cli | Some m \<Rightarrow> metaCreatedBy m),
                      isOwned = (case saved of None \<Rightarrow> False | Some m \<Rightarrow> metaIsOwned m),
                      markedForExit =
                        (case saved of None \<Rightarrow> False | Some m \<Rightarrow> metaMarkedForExit m),
                      markedAt = (case saved of None \<Rightarrow> None | Some m \<Rightarrow> metaMarkedAt m),
                      lastActivity =
                        (case saved of None \<Rightarrow> now | Some m \<Rightarrow> metaLastActivity m) \<rparr>)"

definition listSessionsFormat :: jsstring where
  "listSessionsFormat =
     asc ''#{session_name}:#{window_id}:#{pane_id}:#{pane_current_path}:#{pane_pid}''"

text \<open>\<open>listSessions\<close>: the empty list when tmux fails.\<close>

definition listSessions :: "environment \<Rightarrow> int \<Rightarrow> bridge \<Rightarrow> TmuxSession list \<times> bridge" where
  "listSessions env now b =
     (let r = executeTmux env [asc ''list-sessions'', asc ''-F'', listSessionsFormat] b
      in case fst r of
           None \<Rightarrow> ([], snd r)
         | Some output \<Rightarrow>
             (List.map_filter
                (sessionOfLine (config b) (loadSessionMetadata (snd r)) now)
                (filter (\<lambda>l. l \<noteq> []) (split_on 0x0A (trim output))),
              snd r))"

definition historyLimitArgs :: "bridge \<Rightarrow> jsstring \<Rightarrow> jsstring list" where
  "historyLimitArgs b name =
     [asc ''set-option'', asc ''-t'', name, asc ''history-limit'',
      decimal (historyLimit (config b))]"

text \<open>\<open>attachToSession\<close>; \<open>listNow\<close> and \<open>now\<close> are the clock while the sessions are
  listed and when the ownership is updated.  A failure of \<open>set-option\<close> is caught.\<close>

definition attachToSession ::
  "environment \<Rightarrow> int \<Rightarrow> int \<Rightarrow> jsstring \<Rightarrow> bridge \<Rightarrow> (error + TmuxSession) \<times> bridge" where
  "attachToSession env listNow now name b =
     (let ls = listSessions env listNow b in
      case List.find (\<lambda>s. sessionName s = name) (fst ls) of
        None \<Rightarrow> (Inl SessionNotFound, snd ls)
      | Some found \<Rightarrow>
          (let target = found\<lparr>isOwned := True, lastActivity := now\<rparr>;
               b1 = (snd ls)\<lparr>currentSession := Some target\<rparr>;
               b2 = snd (executeTmux env (historyLimitArgs b1 name) b1)
           in (Inr target, saveSessionMetadata b2)))"

text \<open>The wait for the ready prompt in \<open>createSession\<close>: one round for each clock
  reading of the loop test; \<open>None\<close> when the readings are used up before the loop
  ends.\<close>

fun waitReady ::
  "environment \<Rightarrow> int \<Rightarrow> int list \<Rightarrow> bridge \<Rightarrow> ((error + bool) \<times> bridge) option" where
  "waitReady env startWait [] b = None"
| "waitReady env startWait (t # ts) b =
     (if t - startWait < 30000 then
        (let c = capturePane env None b in
         case fst c of
           Inl e \<Rightarrow> Some (Inl e, snd c)
         | Inr pane \<Rightarrow>
             if js_includes pane (promptGlyph env) then Some (Inr True, snd c)
             else waitReady env startWait ts (snd c))
      else Some (Inr False, b))"

definition newSessionName :: "TmuxBridgeConfig \<Rightarrow> int \<Rightarrow> jsstring option \<Rightarrow> jsstring" where
  "newSessionName cfg now requested =
     orElse (case requested of None \<Rightarrow> [] | Some n \<Rightarrow> n)
       (sessionPrefix cfg @ asc ''-'' @ decimal now)"

text \<open>\<open>createSession\<close>; \<open>now\<close> is the clock when the session is named and created,
  \<open>startWait\<close> the clock when the wait starts.  It returns \<open>this.currentSession\<close>,
  ready or not.\<close>

definition createSession ::
  "environment \<Rightarrow> int \<Rightarrow> int \<Rightarrow> int list \<Rightarrow> jsstring option \<Rightarrow> jsstring option \<Rightarrow> bridge
     \<Rightarrow> ((error + TmuxSession option) \<times> bridge) option" where
  "createSession env now startWait waitClock requested resumeSessionId b =
     (let name = newSessionName (config b) now requested;
          claudeCmd = claudePath (config b) @
            (case resumeSessionId of
               None \<Rightarrow> []
             | Some r \<Rightarrow> if r = [] then [] else asc '' --resume '' @ r);
          r1 = executeTmux env
                 [asc ''new-session'', asc ''-d'', asc ''-s'', name, asc ''-c'',
                  configWorkingDir (config b), asc ''-x'', asc ''200'', asc ''-y'', asc ''50'',
                  claudeCmd] b
      in case fst r1 of
           None \<Rightarrow> Some (Inl TmuxFailed, snd r1)
         | Some _ \<Rightarrow>
             (let r2 = executeTmux env (historyLimitArgs b name) (snd r1) in
              case fst r2 of
                None \<Rightarrow> Some (Inl TmuxFailed, snd r2)
              | Some _ \<Rightarrow>
                  (let created = \<lparr> sessionName = name, windowId = asc ''0'', paneId = asc ''0'',
                         workingDir = configWorkingDir (config b), isRunning = True,
                         createdBy = telegram, isOwned = True, markedForExit = False,
                         markedAt = None, lastActivity = now \<rparr>;
                       b3 = saveSessionMetadata ((snd r2)\<lparr>currentSession := Some created\<rparr>)
                   in case waitReady env startWait waitClock b3 of
                        None \<Rightarrow> None
                      | Some w \<Rightarrow>
                          (case fst w of
                             Inl e \<Rightarrow> Some (Inl e, snd w)
                           | Inr _ \<Rightarrow> Some (Inr (currentSession (snd w)), snd w)))))"

text \<open>\<open>killSession\<close>: a failure of tmux is caught, and nothing else is done then.\<close>

definition killSession :: "environment \<Rightarrow> jsstring \<Rightarrow> bridge \<Rightarrow> bridge" where
  "killSession env name b =
     (let r = executeTmux env [asc ''kill-session'', asc ''-t'', name] b in
      case fst r of
        None \<Rightarrow> snd r
      | Some _ \<Rightarrow>
          (let b1 = (case currentSession (snd r) of
                       None \<Rightarrow> snd r
                     | Some cs \<Rightarrow>
                         if sessionName cs = name then (snd r)\<lparr>currentSession := None\<rparr>
                         else snd r);
               b2 = saveSessionMetadataRaw ((loadSessionMetadata b1)(name := None)) b1
           in b2\<lparr>cleanupTimers := cleanupTimers b2 - {name}\<rparr>))"

text \<open>\<open>markForExit\<close> at the time \<open>now\<close>; the timer it sets is recorded by the name of
  the session.\<close>

definition markForExit :: "int \<Rightarrow> bridge \<Rightarrow> bridge" where
  "markForExit now b =
     (case currentSession b of
        None \<Rightarrow> b
      | Some cs \<Rightarrow>
          if createdBy cs = telegram then
            (let marked = cs\<lparr>markedForExit := True, markedAt := Some now, isOwned := False\<rparr>;
                 b1 = saveSessionMetadata (b\<lparr>currentSession := Some marked\<rparr>)
             in b1\<lparr>cleanupTimers := insert (sessionName cs) (cleanupTimers b1),
                   currentSession := None\<rparr>)
          else
            (let released = cs\<lparr>isOwned := False\<rparr>;
                 b1 = saveSessionMetadata (b\<lparr>currentSession := Some released\<rparr>)
             in b1\<lparr>currentSession := None\<rparr>))"

text \<open>\<open>cleanupSession\<close>, which the timer of \<open>markForExit\<close> calls.\<close>

definition cleanupSession :: "environment \<Rightarrow> int \<Rightarrow> jsstring \<Rightarrow> bridge \<Rightarrow> bridge" where
  "cleanupSession env listNow name b =
     (let ls = listSessions env listNow b;
          b1 = (case List.find (\<lambda>s. sessionName s = name) (fst ls) of
                  None \<Rightarrow> snd ls
                | Some s \<Rightarrow> if markedForExit s then killSession env name (snd ls) else snd ls)
      in b1\<lparr>cleanupTimers := cleanupTimers b1 - {name}\<rparr>)"

text \<open>A session operation, and a sequence of them run one after the other; \<open>None\<close>
  when \<open>createSession\<close> has not returned within the clock readings it is given.\<close>

fun applyOp :: "environment \<Rightarrow> bridgeOp \<Rightarrow> bridge \<Rightarrow> bridge option" where
  "applyOp env (CreateSession now startWait waitClock requested resume) b =
     map_option snd (createSession env now startWait waitClock requested resume b)"
| "applyOp env (AttachToSession listNow now name) b =
     Some (snd (attachToSession env listNow now name b))"
| "applyOp env (MarkForExit now) b = Some (markForExit now b)"
| "applyOp env (KillSession name) b = Some (killSession env name b)"
| "applyOp env (CleanupSession listNow name) b = Some (cleanupSession env listNow name b)"

fun runOps :: "environment \<Rightarrow> bridgeOp list \<Rightarrow> bridge \<Rightarrow> bridge option" where
  "runOps env [] b = Some b"
| "runOps env (x # xs) b =
     (case applyOp env x b of None \<Rightarrow> None | Some b' \<Rightarrow> runOps env xs b')"

subsection \<open>\<open>pollForResponse\<close>\<close>

text \<open>
  \<open>sendMessage\<close> and \<open>pollForResponse\<close> are \<open>async\<close>: at each \<open>await\<close> on a tmux
  process, on a timer or on the caller's callback they are suspended, and the event loop
  runs other handlers, which may call session operations on the same bridge.  What runs
  at an \<open>await\<close> is given as a list of session operations, applied by \<open>runOps\<close> before
  the suspended call goes on; each operation is taken as a whole.  \<open>acquireLock\<close>
  awaits nothing itself: \<open>sendMessage\<close> goes on from it before the event loop
  dispatches another handler.  A second \<open>sendMessage\<close> on the same bridge is not among
  the operations; \<open>stopResponse\<close> is the flag \<open>tickAborted\<close> of a round.
\<close>

text \<open>The local variables of \<open>pollForResponse\<close> that change from one round of its loop to
  the next.  The anchor \<open>lastSliceAnchor\<close> is never assigned after its initialisation
  and is passed as a parameter.\<close>

record pollState =
  lastOutput :: jsstring
  sawProcessing :: bool
  sawResponse :: bool
  lastSlicedContent :: jsstring
  pollParser :: parser

text \<open>
  What one round of the loop meets: the clock at the timeout check, whether
  \<open>stopResponse\<close> has aborted the poll by then, what other handlers run while the pane
  capture is awaited, the clock while \<open>feed\<close> runs, the clock when \<open>isComplete\<close> is
  asked (after the status callbacks of the round have been awaited), and what other
  handlers run during the sleep that ends the round.
\<close>

record tick =
  tickNow :: int
  tickAborted :: bool
  whileCapturing :: "bridgeOp list"
  feedNow :: int
  doneNow :: int
  whileSleeping :: "bridgeOp list"

text \<open>The content after the sent message (lines 517 to 547): after the last
  occurrence of the anchor, or, the anchor being gone, from the last occurrence of the
  tail of the previous slice on, or else the whole pane with the parser's cursor
  reset.\<close>

definition sliceAfterAnchor ::
  "jsstring option \<Rightarrow> jsstring \<Rightarrow> pollState \<Rightarrow> jsstring \<times> pollState" where
  "sliceAfterAnchor anchor paneContent st =
     (case anchor of
        None \<Rightarrow> (paneContent, st)
      | Some a \<Rightarrow>
          (case lastIndexOf paneContent a of
             Some msgIndex \<Rightarrow>
               (let newContent = drop (msgIndex + length a) paneContent
                in (newContent, st\<lparr>lastSlicedContent := newContent\<rparr>))
           | None \<Rightarrow>
               if lastSlicedContent st \<noteq> [] then
                 (let tailLen = min (length (lastSlicedContent st)) 500;
                      tail = slice_last tailLen (lastSlicedContent st)
                  in case lastIndexOf paneContent tail of
                       Some tailIdx \<Rightarrow>
                         (let newContent = drop tailIdx paneContent
                          in (newContent, st\<lparr>lastSlicedContent := newContent\<rparr>))
                     | None \<Rightarrow>
                         (paneContent,
                          st\<lparr>pollParser := resetProcessedLength (pollParser st),
                             lastSlicedContent := paneContent\<rparr>))
               else (paneContent, st\<lparr>lastSlicedContent := paneContent\<rparr>)))"

text \<open>Lines 552 to 555: the pane changed while the parser was in the state
  \<open>complete\<close>, so the completion is revoked.\<close>

definition revokeIfComplete :: "parser \<Rightarrow> parser" where
  "revokeIfComplete p = (if getState p = COMPLETE then revokeCompletion p else p)"


text \<open>\<open>await statusCallback(kind, text)\<close>: the operations of other handlers run, and the
  callback returns or throws.\<close>

definition awaitCallback ::
  "environment \<Rightarrow> jsstring \<Rightarrow> jsstring \<Rightarrow> bridge \<Rightarrow> ((error + unit) \<times> bridge) option" where
  "awaitCallback env kind txt b =
     (case runOps env (fst (statusCallback env kind txt)) b of
        None \<Rightarrow> None
      | Some b' \<Rightarrow>
          Some (if snd (statusCallback env kind txt) then Inr () else Inl CallbackFailed, b'))"

definition emitStatusCallback ::
  "environment \<Rightarrow> ParsedBlock \<Rightarrow> bridge \<Rightarrow> ((error + unit) \<times> bridge) option" where
  "emitStatusCallback env blk b =
     (case btype blk of
        B_thinking \<Rightarrow> awaitCallback env (asc ''thinking'') (content blk) b
      | B_tool \<Rightarrow> awaitCallback env (asc ''tool'') (content blk) b
      | B_text \<Rightarrow>
          (if trim (content blk) \<noteq> [] then awaitCallback env (asc ''text'') (content blk) b
           else Some (Inr (), b))
      | B_error \<Rightarrow> awaitCallback env (asc ''tool'') (asc ''Error: '' @ content blk) b
      | B_prompt \<Rightarrow> Some (Inr (), b))"

text \<open>The loop over the blocks of a feed, which stops at the first callback that
  throws.\<close>

fun emitBlocks ::
  "environment \<Rightarrow> ParsedBlock list \<Rightarrow> bridge \<Rightarrow> ((error + unit) \<times> bridge) option" where
  "emitBlocks env [] b = Some (Inr (), b)"
| "emitBlocks env (blk # blks) b =
     (case emitStatusCallback env blk b of
        None \<Rightarrow> None
      | Some r \<Rightarrow>
          (case fst r of
             Inl e \<Rightarrow> Some (Inl e, snd r)
           | Inr _ \<Rightarrow> emitBlocks env blks (snd r)))"

text \<open>
  One round in which the pane content differs from the last one seen (lines 513 to
  590).  The result is an error (a callback threw), \<open>Inr (Some response)\<close> when the
  response is complete, or \<open>Inr None\<close> when the loop goes on; \<open>None\<close> when an
  operation run meanwhile does not return.
\<close>

definition pollChanged ::
  "environment \<Rightarrow> tick \<Rightarrow> jsstring option \<Rightarrow> jsstring \<Rightarrow> pollState \<Rightarrow> bridge
     \<Rightarrow> ((error + jsstring option) \<times> pollState \<times> bridge) option" where
  "pollChanged env t anchor paneContent st b =
     (let sliced = sliceAfterAnchor anchor paneContent (st\<lparr>lastOutput := paneContent\<rparr>);
          newContent = fst sliced;
          st2 = (snd sliced)\<lparr>pollParser := revokeIfComplete (pollParser (snd sliced))\<rparr>;
          startsProcessing =
            (\<not> sawProcessing st2 \<and> js_includes newContent (processingGlyph env));
          st3 = (if startsProcessing then st2\<lparr>sawProcessing := True\<rparr> else st2)
      in case (if startsProcessing
               then awaitCallback env (asc ''thinking'') (asc ''Processing...'') b
               else Some (Inr (), b)) of
           None \<Rightarrow> None
         | Some c1 \<Rightarrow>
             (case fst c1 of
                Inl e \<Rightarrow> Some (Inl e, st3, snd c1)
              | Inr _ \<Rightarrow>
                  (let st4 = (if \<not> sawResponse st3 \<and> js_includes newContent (responseGlyph env)
                              then st3\<lparr>sawResponse := True, pollParser := reset (pollParser st3)\<rparr>
                              else st3)
                   in if sawProcessing st4 \<or> sawResponse st4 then
                        (let fed = feed (feedNow t) newContent (pollParser st4);
                             st5 = st4\<lparr>pollParser := fst fed\<rparr>
                         in case emitBlocks env (snd fed) (snd c1) of
                              None \<Rightarrow> None
                            | Some c2 \<Rightarrow>
                                (case fst c2 of
                                   Inl e \<Rightarrow> Some (Inl e, st5, snd c2)
                                 | Inr _ \<Rightarrow>
                                     if sawResponse st5 \<and> isComplete (doneNow t) (fst fed) then
                                       (let r = getTextResponse (fst fed);
                                            st6 = st5\<lparr>pollParser := snd r\<rparr>;
                                            b1 = (snd c2)\<lparr>lastKnownPaneContent := paneContent\<rparr>
                                        in case awaitCallback env (asc ''done'') [] b1 of
                                             None \<Rightarrow> None
                                           | Some c3 \<Rightarrow>
                                               (case fst c3 of
                                                  Inl e \<Rightarrow> Some (Inl e, st6, snd c3)
                                                | Inr _ \<Rightarrow> Some (Inr (Some (fst r)), st6, snd c3)))
                                     else Some (Inr None, st5, snd c2)))
                      else Some (Inr None, st4, snd c1))))"

text \<open>
  The loop \<open>while (true)\<close>, one round for each element of \<open>ticks\<close>.  It returns
  \<open>Some\<close> of an error or of the response, and \<open>None\<close> when the rounds given are used
  up before the loop has returned or thrown, or when an operation run meanwhile does not
  return.
\<close>

fun pollLoop ::
  "environment \<Rightarrow> jsstring option \<Rightarrow> int \<Rightarrow> tick list \<Rightarrow> pollState \<Rightarrow> bridge
     \<Rightarrow> ((error + jsstring) \<times> bridge) option" where
  "pollLoop env anchor startTime [] st b = None"
| "pollLoop env anchor startTime (t # ts) st b =
     (if tickNow t - startTime > maxPollTimeMs (config b) then Some (Inl ResponseTimeout, b)
      else if tickAborted t then Some (Inl ResponseCancelled, b)
      else
        (let captured = capturePane env None b in
         case runOps env (whileCapturing t) (snd captured) of
           None \<Rightarrow> None
         | Some b1 \<Rightarrow>
             (case fst captured of
                Inl e \<Rightarrow> Some (Inl e, b1)
              | Inr paneContent \<Rightarrow>
                  (case (if paneContent \<noteq> lastOutput st
                         then pollChanged env t anchor paneContent st b1
                         else Some (Inr None, st, b1)) of
                     None \<Rightarrow> None
                   | Some r \<Rightarrow>
                       (case fst r of
                          Inl e \<Rightarrow> Some (Inl e, snd (snd r))
                        | Inr (Some response) \<Rightarrow> Some (Inr response, snd (snd r))
                        | Inr None \<Rightarrow>
                            (case runOps env (whileSleeping t) (snd (snd r)) of
                               None \<Rightarrow> None
                             | Some b2 \<Rightarrow> pollLoop env anchor startTime ts (fst (snd r)) b2))))))"

text \<open>\<open>pollForResponse\<close>: the loop between the creation of the abort controller and
  the \<open>finally\<close> that clears it.  \<open>startNow\<close> is the clock when the poll starts.\<close>

definition pollForResponse ::
  "environment \<Rightarrow> int \<Rightarrow> tick list \<Rightarrow> parser \<Rightarrow> jsstring option \<Rightarrow> bridge
     \<Rightarrow> ((error + jsstring) \<times> bridge) option" where
  "pollForResponse env startNow ticks p sentMessage b =
     (let anchor = (case sentMessage of None \<Rightarrow> None
                    | Some m \<Rightarrow> if m = [] then None else Some m);
          st = \<lparr> lastOutput = [], sawProcessing = False, sawResponse = False,
                 lastSlicedContent = [], pollParser = p \<rparr>
      in case pollLoop env anchor startNow ticks st (b\<lparr>polling := True\<rparr>) of
           None \<Rightarrow> None
         | Some r \<Rightarrow> Some (fst r, (snd r)\<lparr>polling := False\<rparr>))"

subsection \<open>\<open>sendMessage\<close>\<close>

text \<open>What other handlers run while \<open>sendMessage\<close> awaits the tmux command that types
  the message, the one that presses Enter, and the sleep of 500 ms before the poll.\<close>

record sendAwaits =
  whileTyping :: "bridgeOp list"
  whileEntering :: "bridgeOp list"
  whileStarting :: "bridgeOp list"

text \<open>The \<open>try\<close> block of \<open>sendMessage\<close>.  A dereference of \<open>this.currentSession\<close>
  when it is null throws (\<open>NullSession\<close>).\<close>

definition sendMessageBody ::
  "environment \<Rightarrow> int \<Rightarrow> int \<Rightarrow> sendAwaits \<Rightarrow> tick list \<Rightarrow> jsstring \<Rightarrow> bridge
     \<Rightarrow> ((error + jsstring) \<times> bridge) option" where
  "sendMessageBody env activityNow startNow aw ticks message b =
     (let k1 = sendKeys env message b in
      case runOps env (whileTyping aw) (snd k1) of
        None \<Rightarrow> None
      | Some b1 \<Rightarrow>
          (case fst k1 of
             Inl e \<Rightarrow> Some (Inl e, b1)
           | Inr _ \<Rightarrow>
               (let k2 = sendKeys env (asc ''Enter'') b1 in
                case runOps env (whileEntering aw) (snd k2) of
                  None \<Rightarrow> None
                | Some b2 \<Rightarrow>
                    (case fst k2 of
                       Inl e \<Rightarrow> Some (Inl e, b2)
                     | Inr _ \<Rightarrow>
                         (case currentSession b2 of
                            None \<Rightarrow> Some (Inl NullSession, b2)
                          | Some cs \<Rightarrow>
                              (case runOps env (whileStarting aw)
                                      (saveSessionMetadata
                                         (b2\<lparr>currentSession :=
                                               Some (cs\<lparr>lastActivity := activityNow\<rparr>)\<rparr>)) of
                                 None \<Rightarrow> None
                               | Some b3 \<Rightarrow>
                                   pollForResponse env startNow ticks newParser
                                     (Some message) b3))))))"

text \<open>The \<open>finally\<close> block: \<open>this.releaseLock(this.currentSession.sessionName)\<close>.  The
  session is read again here; when it is null the dereference throws, the error replaces
  the outcome of the \<open>try\<close> block, and \<open>releaseLock\<close> is not called.\<close>

definition finallyRelease ::
  "(error + jsstring) \<times> bridge \<Rightarrow> (error + jsstring) \<times> bridge" where
  "finallyRelease r =
     (case currentSession (snd r) of
        None \<Rightarrow> (Inl NullSession, snd r)
      | Some cs \<Rightarrow> (fst r, releaseLock (sessionName cs) (snd r)))"

text \<open>\<open>sendMessage\<close>; \<open>clock\<close>, \<open>activityNow\<close> and \<open>startNow\<close> are the clock when the
  lock is acquired, when the activity is recorded and when the poll starts.\<close>

definition sendMessage ::
  "environment \<Rightarrow> lockClock \<Rightarrow> int \<Rightarrow> int \<Rightarrow> sendAwaits \<Rightarrow> tick list \<Rightarrow> jsstring \<Rightarrow> bridge
     \<Rightarrow> ((error + jsstring) \<times> bridge) option" where
  "sendMessage env clock activityNow startNow aw ticks message b =
     (case currentSession b of
        None \<Rightarrow> Some (Inl NoActiveSession, b)
      | Some cs \<Rightarrow>
          (let a = acquireLock env clock (sessionName cs) b in
           case fst a of
             None \<Rightarrow> Some (Inl LockFailed, snd a)
           | Some lock \<Rightarrow>
               (case sendMessageBody env activityNow startNow aw ticks message (snd a) of
                  None \<Rightarrow> None
                | Some r \<Rightarrow> Some (finallyRelease r))))"

section \<open>Predicates of the properties\<close>

subsection \<open>Lines of a capture\<close>

text \<open>The lines that \<open>parseContent\<close> passes over: empty lines, separators, table
  borders, the chrome of the interface, lines of box characters only, and the status
  bar.\<close>

definition skippedLine :: "jsstring \<Rightarrow> bool" where
  "skippedLine l \<longleftrightarrow>
     trim l = [] \<or> SEPARATOR l \<or> TABLE_BORDER (trim l) \<or> UI_CHROME (trim l) \<or>
     (BOX_CHARS (trim l) \<and> boxClean (trim l) = []) \<or> statusBar (trim l)"

text \<open>The text of a line: trimmed, and its box characters rewritten when it has any.\<close>

definition cleanedLine :: "jsstring \<Rightarrow> jsstring" where
  "cleanedLine l = (if BOX_CHARS (trim l) then boxClean (trim l) else trim l)"

text \<open>A tool-invocation line: it is not skipped and matches \<open>CLAUDE_TOOL\<close>, the first
  pattern tried.\<close>

definition toolInvocation :: "jsstring \<Rightarrow> bool" where
  "toolInvocation l \<longleftrightarrow> \<not> skippedLine l \<and> CLAUDE_TOOL l"

text \<open>A response line with the text \<open>t\<close>: it matches none of the patterns tried before
  \<open>RESPONSE\<close>, and \<open>RESPONSE\<close> captures \<open>t\<close>.\<close>

definition responseLine :: "jsstring \<Rightarrow> jsstring \<Rightarrow> bool" where
  "responseLine l t \<longleftrightarrow>
     \<not> skippedLine l \<and> \<not> CLAUDE_TOOL l \<and> \<not> TOOL_OUTPUT l \<and> \<not> COLLAPSED l \<and>
     \<not> EDIT_FILE (trim l) \<and> \<not> DIFF_LINE (trim l) \<and> \<not> PERMISSION_PROMPT (trim l) \<and>
     \<not> MENU_OPTION l \<and> \<not> PROCESSING l \<and> RESPONSE_match l = Some t \<and> t \<noteq> []"

text \<open>A line of plain reply text: it is not skipped, carries no marker (it matches none
  of the patterns that \<open>parseContent\<close> tries outside a tool block), and is not a usage
  line.\<close>

definition plainLine :: "jsstring \<Rightarrow> bool" where
  "plainLine l \<longleftrightarrow>
     \<not> skippedLine l \<and> \<not> CLAUDE_TOOL l \<and> \<not> COLLAPSED l \<and>
     \<not> EDIT_FILE (trim l) \<and> \<not> DIFF_LINE (trim l) \<and> \<not> PERMISSION_PROMPT (trim l) \<and>
     \<not> MENU_OPTION l \<and> \<not> PROCESSING l \<and> RESPONSE_match l = None \<and> \<not> USER_INPUT l \<and>
     \<not> PROMPT l \<and> \<not> TOOL_START l \<and> \<not> TOOL_RUNNING l \<and> \<not> ERROR l \<and> \<not> USAGE l"

text \<open>The lines of a capture that lie beyond the cursor of the parser and are not
  skipped.\<close>

definition unparsedLines :: "jsstring \<Rightarrow> parser \<Rightarrow> jsstring list" where
  "unparsedLines raw p =
     filter (\<lambda>l. \<not> skippedLine l)
       (split_on 0x0A (drop (processedLength p) (cleanOutput raw)))"

subsection \<open>Commands and sessions\<close>

text \<open>The text a tmux command types with the literal flag, if it is such a command.\<close>

definition literalText :: "jsstring list \<Rightarrow> jsstring option" where
  "literalText args =
     (case args of
        [c, t, target, l, txt] \<Rightarrow>
          if c = asc ''send-keys'' \<and> t = asc ''-t'' \<and> l = asc ''-l'' then Some txt else None
      | _ \<Rightarrow> None)"

text \<open>\<open>typesNothing b b'\<close>: the log of \<open>b'\<close> is that of \<open>b\<close> followed by commands that
  type no text literally.\<close>

definition typesNothing :: "bridge \<Rightarrow> bridge \<Rightarrow> bool" where
  "typesNothing b b' \<longleftrightarrow>
     (\<exists>cmds. tmuxLog b' = tmuxLog b @ cmds \<and> list_all (\<lambda>a. literalText a = None) cmds)"

text \<open>No other handler runs a session operation while a callback is awaited, during a
  round of the poll, or while \<open>sendMessage\<close> awaits before the poll.\<close>

definition quietCallbacks :: "environment \<Rightarrow> bool" where
  "quietCallbacks env \<longleftrightarrow> (\<forall>kind txt. fst (statusCallback env kind txt) = [])"

definition quietTick :: "tick \<Rightarrow> bool" where
  "quietTick t \<longleftrightarrow> whileCapturing t = [] \<and> whileSleeping t = []"

definition quietAwaits :: "sendAwaits \<Rightarrow> bool" where
  "quietAwaits aw \<longleftrightarrow> whileTyping aw = [] \<and> whileEntering aw = [] \<and> whileStarting aw = []"

text \<open>\<open>keepsSession b b'\<close>: the current session of \<open>b'\<close> is that of \<open>b\<close>.\<close>

definition keepsSession :: "bridge \<Rightarrow> bridge \<Rightarrow> bool" where
  "keepsSession b b' \<longleftrightarrow> currentSession b' = currentSession b"

text \<open>\<open>ownedBy b name\<close>: the metadata file of \<open>b\<close> has an entry for \<open>name\<close> whose
  owned flag is set.\<close>

definition ownedBy :: "bridge \<Rightarrow> jsstring \<Rightarrow> bool" where
  "ownedBy b name =
     (case loadSessionMetadata b name of None \<Rightarrow> False | Some m \<Rightarrow> metaIsOwned m)"

text \<open>At most one entry of the metadata file is owned.\<close>

definition atMostOneOwned :: "bridge \<Rightarrow> bool" where
  "atMostOneOwned b \<longleftrightarrow> (\<forall>n1 n2. ownedBy b n1 \<and> ownedBy b n2 \<longrightarrow> n1 = n2)"

text \<open>No entry of the metadata file is owned but that of the current session.\<close>

definition ownedIsCurrent :: "bridge \<Rightarrow> bool" where
  "ownedIsCurrent b \<longleftrightarrow>
     (\<forall>n. ownedBy b n \<longrightarrow> (\<exists>cs. currentSession b = Some cs \<and> sessionName cs = n))"

text \<open>The sequences of session operations in which \<open>createSession\<close> and
  \<open>attachToSession\<close> are called only while the bridge has no current session.\<close>

fun opAllowed :: "bridgeOp \<Rightarrow> bridge \<Rightarrow> bool" where
  "opAllowed (CreateSession now startWait waitClock requested resume) b =
     (currentSession b = None)"
| "opAllowed (AttachToSession listNow now name) b = (currentSession b = None)"
| "opAllowed (MarkForExit now) b = True"
| "opAllowed (KillSession name) b = True"
| "opAllowed (CleanupSession listNow name) b = True"

fun opsAllowed :: "environment \<Rightarrow> bridgeOp list \<Rightarrow> bridge \<Rightarrow> bool" where
  "opsAllowed env [] b = True"
| "opsAllowed env (x # xs) b =
     (opAllowed x b \<and> (case applyOp env x b of None \<Rightarrow> True | Some b' \<Rightarrow> opsAllowed env xs b'))"

text \<open>\<open>sameSessions b b'\<close>: \<open>b'\<close> has the current session and the metadata of \<open>b\<close>.\<close>

definition sameSessions :: "bridge \<Rightarrow> bridge \<Rightarrow> bool" where
  "sameSessions b b' \<longleftrightarrow>
     currentSession b' = currentSession b \<and> sessionFile b' = sessionFile b \<and>
     config b' = config b"

section \<open>Example runs\<close>

text \<open>Captures of a pane.  The first shows a response and an empty prompt.  The second
  goes on with a tool invocation, a second response and a line of plain text; the third
  is the second followed by a separator and an empty prompt.  The fourth goes on from
  the first with two lines of plain text.\<close>

definition firstCapture :: jsstring where
  "firstCapture = [0x23FA] @ asc '' first'' @ [0x0A, 0x276F]"

definition toolCapture :: jsstring where
  "toolCapture = firstCapture @ [0x0A, 0x25CF] @ asc '' Read(x)'' @ [0x0A, 0x23FA] @
     asc '' second'' @ [0x0A] @ asc ''more text''"

definition finishedCapture :: jsstring where
  "finishedCapture = toolCapture @ [0x0A] @ replicate 5 0x2500 @ [0x0A, 0x276F]"

definition plainCapture :: jsstring where
  "plainCapture = firstCapture @ [0x0A] @ asc ''and more'' @ [0x0A] @ asc ''to say''"

text \<open>A configuration with the default values of \<open>config.ts\<close>, and a session \<open>s1\<close>
  created by the bridge.\<close>

definition demoConfig :: TmuxBridgeConfig where
  "demoConfig = \<lparr> sessionPrefix = asc ''claude-tg'', pollIntervalMs = 100,
     maxPollTimeMs = 300000, claudePath = asc ''claude'', configWorkingDir = asc ''/tmp'',
     tmuxPath = asc ''tmux'', historyLimit = 10000, idleTimeoutMs = 600000 \<rparr>"

definition demoSession :: TmuxSession where
  "demoSession = \<lparr> sessionName = asc ''s1'', windowId = asc ''0'', paneId = asc ''0'',
     workingDir = asc ''/tmp'', isRunning = True, createdBy = telegram, isOwned = True,
     markedForExit = False, markedAt = None, lastActivity = 0 \<rparr>"

definition demoLock :: "jsstring \<Rightarrow> int \<Rightarrow> TmuxLock" where
  "demoLock name expiry = \<lparr> lockSessionName = name, acquiredAt = expiry - 60000,
     expiresAt = expiry, deviceInfo = Some (asc ''telegram-bot'') \<rparr>"

text \<open>A bridge attached to the session \<open>s1\<close>, with a lock file that holds a lock of
  \<open>s1\<close> and a lock of \<open>s0\<close>, both expiring at the time 5000.\<close>

definition demoBridge :: bridge where
  "demoBridge = \<lparr> config = demoConfig, currentSession = Some demoSession, polling = False,
     cleanupTimers = {}, lastKnownPaneContent = [],
     lockFile = Some [asc ''s1'' \<mapsto> demoLock (asc ''s1'') 5000,
                      asc ''s0'' \<mapsto> demoLock (asc ''s0'') 5000],
     sessionFile = None, tmuxLog = [] \<rparr>"

text \<open>A clock that does not advance during \<open>acquireLock\<close>.\<close>

definition atOnce :: "int \<Rightarrow> lockClock" where
  "atOnce t = \<lparr> checkNow = t, acquireNow = t, expiryNow = t \<rparr>"

text \<open>A pane that shows the echoed message \<open>hi\<close>, the response \<open>hello\<close>, a separator and
  the empty prompt; an outside world in which the third tmux command (the first
  capture of a \<open>sendMessage\<close>) shows this pane, every other command prints nothing,
  no callback throws and no other handler runs while one is awaited; a \<open>sendMessage\<close>
  that is left alone at its own awaits; and a round of the poll, left alone too, in
  which two seconds go by between the feed and the completion check.\<close>

definition demoPane :: jsstring where
  "demoPane = [0x276F] @ asc '' hi'' @ [0x0A, 0x23FA] @ asc '' hello'' @ [0x0A] @
     replicate 5 0x2500 @ [0x0A, 0x276F]"

definition demoEnv :: environment where
  "demoEnv = \<lparr> tmux = (\<lambda>k args. Some (if k = 2 then demoPane else [])),
     statusCallback = (\<lambda>kind txt. ([], True)), TMUX_LOCK_TIMEOUT = 60000,
     promptGlyph = [0x276F], processingGlyph = [0x273D], responseGlyph = [0x23FA] \<rparr>"

definition undisturbed :: sendAwaits where
  "undisturbed = \<lparr> whileTyping = [], whileEntering = [], whileStarting = [] \<rparr>"

definition demoTick :: tick where
  "demoTick = \<lparr> tickNow = 6600, tickAborted = False, whileCapturing = [], feedNow = 6700,
     doneNow = 8700, whileSleeping = [] \<rparr>"

text \<open>An outside world in which every pane shows the echoed message \<open>hi\<close> and the
  processing indicator: Claude is still at work.\<close>

definition busyPane :: jsstring where
  "busyPane = [0x276F] @ asc '' hi'' @ [0x0A, 0x273D] @ asc '' Pondering''"

definition busyEnv :: environment where
  "busyEnv = demoEnv\<lparr>tmux := \<lambda>k args. Some busyPane\<rparr>"

text \<open>Two rounds of a poll.  In the first, nothing is complete, and during the sleep
  that ends it another handler releases the session; in the second, \<open>stopResponse\<close>
  has aborted the poll.  And an outside world like \<open>demoEnv\<close> in which the session is
  released while the callback \<open>done\<close> is awaited.\<close>

definition releasedTick :: tick where
  "releasedTick = \<lparr> tickNow = 6600, tickAborted = False, whileCapturing = [], feedNow = 6610,
     doneNow = 6620, whileSleeping = [MarkForExit 6700] \<rparr>"

definition stoppedTick :: tick where
  "stoppedTick = \<lparr> tickNow = 6720, tickAborted = True, whileCapturing = [], feedNow = 6730,
     doneNow = 6740, whileSleeping = [] \<rparr>"

definition releasingEnv :: environment where
  "releasingEnv = demoEnv\<lparr>statusCallback :=
     \<lambda>kind txt. (if kind = asc ''done'' then [MarkForExit 8800] else [], True)\<rparr>"

text \<open>A bridge with no current session and no files, and an outside world in which
  tmux lists one session, \<open>work\<close>, and every pane shows \<open>demoPane\<close>.\<close>

definition idleBridge :: bridge where
  "idleBridge = \<lparr> config = demoConfig, currentSession = None, polling = False,
     cleanupTimers = {}, lastKnownPaneContent = [], lockFile = None, sessionFile = None,
     tmuxLog = [] \<rparr>"

definition sessionsEnv :: environment where
  "sessionsEnv = \<lparr> tmux = (\<lambda>k args. case args of
         [] \<Rightarrow> Some []
       | c # _ \<Rightarrow> if c = asc ''list-sessions'' then Some (asc ''work:0:0:/tmp:42'')
                  else Some demoPane),
     statusCallback = (\<lambda>kind txt. ([], True)), TMUX_LOCK_TIMEOUT = 60000,
     promptGlyph = [0x276F], processingGlyph = [0x273D], responseGlyph = [0x23FA] \<rparr>"

section \<open>Properties of the parser\<close>

text \<open>
  C3.  Right after \<open>reset()\<close>, \<open>isComplete()\<close> returns false at every clock reading:
  \<open>reset\<close> leaves the prompt timestamp at its zero sentinel and the state at \<open>idle\<close>, and
  \<open>isComplete\<close> answers false on a state other than \<open>complete\<close> before it looks at the
  time elapsed, however large \<open>now - 0\<close> is.
\<close>

theorem isComplete_after_reset:
  "promptDetectedAt (reset p) = 0 \<and> isComplete now (reset p) = False"
  by (simp add: reset_def isComplete_def)

subsection \<open>What parsing and the completion check leave alone\<close>

lemma checkCompletion_fields:
  "textAccumulator (checkCompletion now b p) = textAccumulator p"
  "currentBlockContent (checkCompletion now b p) = currentBlockContent p"
  "blocks (checkCompletion now b p) = blocks p"
  "buffer (checkCompletion now b p) = buffer p"
  "processedLength (checkCompletion now b p) = processedLength p"
  by (simp_all add: checkCompletion_def markComplete_def Let_def)

lemma accumulateLine_fields:
  "buffer (fst (accumulateLine l c pb)) = buffer (fst pb)"
  "processedLength (fst (accumulateLine l c pb)) = processedLength (fst pb)"
  "blocks (fst (accumulateLine l c pb)) = blocks (fst pb)"
  by (simp_all add: accumulateLine_def Let_def split: ParseState.splits)

lemma classifyLine_fields:
  "buffer (fst (classifyLine now l t c pb)) = buffer (fst pb)"
  "processedLength (fst (classifyLine now l t c pb)) = processedLength (fst pb)"
  "blocks (fst (classifyLine now l t c pb)) = blocks (fst pb)"
  by (simp_all add: classifyLine_def Let_def accumulateLine_fields split: option.splits)

lemma parseLine_fields:
  "buffer (fst (parseLine now l pb)) = buffer (fst pb)"
  "processedLength (fst (parseLine now l pb)) = processedLength (fst pb)"
  "blocks (fst (parseLine now l pb)) = blocks (fst pb)"
  by (simp_all add: parseLine_def Let_def classifyLine_fields)

lemma fold_parseLine_fields:
  "buffer (fst (fold (parseLine now) ls pb)) = buffer (fst pb)"
  "processedLength (fst (fold (parseLine now) ls pb)) = processedLength (fst pb)"
  "blocks (fst (fold (parseLine now) ls pb)) = blocks (fst pb)"
  by (induction ls arbitrary: pb) (simp_all add: parseLine_fields)

lemma parseContent_fields:
  "buffer (fst (parseContent now c p)) = buffer p"
  "processedLength (fst (parseContent now c p)) = processedLength p"
  "blocks (fst (parseContent now c p)) = blocks p @ snd (parseContent now c p)"
  by (simp_all add: parseContent_def Let_def fold_parseLine_fields)

subsection \<open>A second feed of a suffix\<close>

lemma lastIndexFrom_short:
  "length s < length needle \<Longrightarrow> lastIndexFrom needle s i found = found"
proof (induction s arbitrary: i found)
  case Nil
  then show ?case by auto
next
  case (Cons c cs)
  have "\<not> prefix needle (c # cs)"
    using Cons.prems by (auto dest: prefix_length_le)
  then show ?case using Cons by simp
qed

lemma lastIndexOf_self: "lastIndexOf s s = Some 0"
  by (cases s) (simp_all add: lastIndexOf_def lastIndexFrom_short)

lemma slice_last_suffix:
  assumes "suffix t2 t1" "n \<le> length t2" "0 < n"
  shows "slice_last n t1 = slice_last n t2"
proof -
  from assms(1) obtain pre where "t1 = pre @ t2" by (auto simp: suffix_def)
  then show ?thesis using assms(2,3) by (simp add: slice_last_def)
qed

lemma slice_last_suffix_self:
  assumes "suffix t2 t1" "0 < length t2"
  shows "slice_last (length t2) t1 = t2"
proof -
  from assms(1) obtain pre where "t1 = pre @ t2" by (auto simp: suffix_def)
  then show ?thesis using assms(2) by (simp add: slice_last_def)
qed

lemma displacedCursor_suffix:
  assumes "suffix t2 t1" "0 < length t2" "length t2 < 200"
  shows "displacedCursor t1 t2 = length t2"
proof -
  have le: "length t2 \<le> length t1" using assms(1) by (rule suffix_length_le)
  then have m: "min (length t1) (min (length t2) 500) = length t2" using assms(3) by simp
  show ?thesis
    by (simp add: displacedCursor_def m Let_def slice_last_suffix_self [OF assms(1,2)]
          lastIndexOf_self)
qed

text \<open>A parser whose cursor stands at the end of its buffer, fed a text that cleans to
  a suffix of the buffer, parses nothing: either the tails agree (no change), or the
  overlap is the whole new text and the cursor is rebased to its end.\<close>

lemma feed_second_suffix:
  assumes suf: "suffix t2 (buffer p)" and t2: "t2 = cleanOutput raw2"
    and len: "processedLength p = length (buffer p)"
  shows "snd (feed now raw2 p) = [] \<and>
     textAccumulator (fst (feed now raw2 p)) = textAccumulator p \<and>
     currentBlockContent (fst (feed now raw2 p)) = currentBlockContent p \<and>
     blocks (fst (feed now raw2 p)) = blocks p"
proof -
  have le: "length t2 \<le> length (buffer p)" using suf by (rule suffix_length_le)
  show ?thesis
  proof (cases "buffer p = []")
    case True
    then have "t2 = []" using suf by simp
    then show ?thesis using True len t2 by (simp add: feed_def Let_def checkCompletion_fields)
  next
    case nonempty: False
    show ?thesis
    proof (cases "displaced t2 p")
      case False
      then show ?thesis using le len nonempty t2
        by (simp add: feed_def Let_def checkCompletion_fields)
    next
      case True
      then have pos: "0 < length t2" by (simp add: displaced_def)
      have short: "length t2 < 200"
      proof (rule ccontr)
        assume "\<not> length t2 < 200"
        then have "slice_last 200 (buffer p) = slice_last 200 t2"
          using slice_last_suffix [OF suf, of 200] by simp
        then show False using True by (simp add: displaced_def)
      qed
      have cur: "displacedCursor (buffer p) t2 = length t2"
        by (rule displacedCursor_suffix [OF suf pos short])
      show ?thesis using le len nonempty t2 True cur
        by (simp add: feed_def Let_def checkCompletion_fields)
    qed
  qed
qed

lemma feed_fresh:
  "processedLength (fst (feed now raw newParser)) = length (buffer (fst (feed now raw newParser)))
   \<and> buffer (fst (feed now raw newParser)) = cleanOutput raw"
  by (simp add: feed_def Let_def newParser_def checkCompletion_fields parseContent_fields)

text \<open>
  C1.  No displacement loss.  Let \<open>raw1\<close> and \<open>raw2\<close> be two captures such that the
  cleaned text of \<open>raw2\<close> is a suffix of the cleaned text of \<open>raw1\<close>.  On a fresh parser,
  \<open>feed(raw1)\<close> followed by \<open>feed(raw2)\<close> emits no block in the second call and leaves
  the block list, the text accumulator and the pending accumulator as \<open>feed(raw1)\<close>
  alone left them; \<open>getTextResponse()\<close> returns the same string in both cases.
\<close>

theorem feed_suffix_no_displacement_loss:
  assumes "suffix (cleanOutput raw2) (cleanOutput raw1)"
  shows "snd (feed now2 raw2 (fst (feed now1 raw1 newParser))) = [] \<and>
     blocks (fst (feed now2 raw2 (fst (feed now1 raw1 newParser))))
       = blocks (fst (feed now1 raw1 newParser)) \<and>
     textAccumulator (fst (feed now2 raw2 (fst (feed now1 raw1 newParser))))
       = textAccumulator (fst (feed now1 raw1 newParser)) \<and>
     currentBlockContent (fst (feed now2 raw2 (fst (feed now1 raw1 newParser))))
       = currentBlockContent (fst (feed now1 raw1 newParser)) \<and>
     fst (getTextResponse (fst (feed now2 raw2 (fst (feed now1 raw1 newParser)))))
       = fst (getTextResponse (fst (feed now1 raw1 newParser)))"
proof -
  define p1 where "p1 = fst (feed now1 raw1 newParser)"
  have b: "buffer p1 = cleanOutput raw1" and l: "processedLength p1 = length (buffer p1)"
    unfolding p1_def using feed_fresh [of now1 raw1] by simp_all
  have suf: "suffix (cleanOutput raw2) (buffer p1)" using assms b by simp
  have keep: "snd (feed now2 raw2 p1) = [] \<and>
     textAccumulator (fst (feed now2 raw2 p1)) = textAccumulator p1 \<and>
     currentBlockContent (fst (feed now2 raw2 p1)) = currentBlockContent p1 \<and>
     blocks (fst (feed now2 raw2 p1)) = blocks p1"
    by (rule feed_second_suffix [OF suf refl l])
  then have "fst (getTextResponse (fst (feed now2 raw2 p1))) = fst (getTextResponse p1)"
    by (simp add: getTextResponse_def Let_def)
  with keep show ?thesis unfolding p1_def by simp
qed

text \<open>The hypothesis holds of a capture of two lines and its last line: the tails
  differ, so the second feed goes through the displacement branch.\<close>

theorem feed_suffix_no_displacement_loss_witness:
  "suffix (cleanOutput (asc ''more text''))
     (cleanOutput ([0x23FA] @ asc '' hello'' @ [0x0A] @ asc ''more text'')) \<and>
   (snd (feed 2 (asc ''more text'')
      (fst (feed 1 ([0x23FA] @ asc '' hello'' @ [0x0A] @ asc ''more text'') newParser))) = [] \<and>
    blocks (fst (feed 2 (asc ''more text'')
      (fst (feed 1 ([0x23FA] @ asc '' hello'' @ [0x0A] @ asc ''more text'') newParser))))
      = blocks (fst (feed 1 ([0x23FA] @ asc '' hello'' @ [0x0A] @ asc ''more text'') newParser)) \<and>
    textAccumulator (fst (feed 2 (asc ''more text'')
      (fst (feed 1 ([0x23FA] @ asc '' hello'' @ [0x0A] @ asc ''more text'') newParser))))
      = textAccumulator
          (fst (feed 1 ([0x23FA] @ asc '' hello'' @ [0x0A] @ asc ''more text'') newParser)) \<and>
    currentBlockContent (fst (feed 2 (asc ''more text'')
      (fst (feed 1 ([0x23FA] @ asc '' hello'' @ [0x0A] @ asc ''more text'') newParser))))
      = currentBlockContent
          (fst (feed 1 ([0x23FA] @ asc '' hello'' @ [0x0A] @ asc ''more text'') newParser)) \<and>
    fst (getTextResponse (fst (feed 2 (asc ''more text'')
      (fst (feed 1 ([0x23FA] @ asc '' hello'' @ [0x0A] @ asc ''more text'') newParser)))))
      = fst (getTextResponse
          (fst (feed 1 ([0x23FA] @ asc '' hello'' @ [0x0A] @ asc ''more text'') newParser))))"
proof -
  have h: "suffix (cleanOutput (asc ''more text''))
     (cleanOutput ([0x23FA] @ asc '' hello'' @ [0x0A] @ asc ''more text''))"
    by code_simp
  show ?thesis
    by (rule conjI [OF h feed_suffix_no_displacement_loss [OF h]])
qed

text \<open>
  C2.  Idempotent drain.  The claim is that two calls of \<open>getTextResponse()\<close> in a row
  return the same string.  \<open>getTextResponse\<close> appends the pending accumulator to the
  text accumulator and does not empty it, so the second call appends it once more:
  after \<open>feed("\<dots> hello")\<close> (the response glyph U+23FA, a space, \<open>hello\<close>) the first
  call returns \<open>hello\nhello\<close> and the second \<open>hello\nhello\nhello\<close>.
\<close>

theorem getTextResponse_twice_differs:
  "fst (getTextResponse (fst (feed 1 ([0x23FA] @ asc '' hello'') newParser)))
     = asc ''hello'' @ [0x0A] @ asc ''hello'' \<and>
   fst (getTextResponse (snd (getTextResponse
          (fst (feed 1 ([0x23FA] @ asc '' hello'') newParser)))))
     = asc ''hello'' @ [0x0A] @ asc ''hello'' @ [0x0A] @ asc ''hello''"
  by code_simp

subsection \<open>\<open>lastIndexOf\<close> and the displacement cursor\<close>

lemma all_le_Suc: "(\<forall>j \<le> Suc n. P j) \<longleftrightarrow> P 0 \<and> (\<forall>j \<le> n. P (Suc j))"
proof
  assume a: "\<forall>j \<le> Suc n. P j"
  show "P 0 \<and> (\<forall>j \<le> n. P (Suc j))" using a by auto
next
  assume a: "P 0 \<and> (\<forall>j \<le> n. P (Suc j))"
  show "\<forall>j \<le> Suc n. P j"
  proof (intro allI impI)
    fix j assume "j \<le> Suc n"
    then show "P j" using a by (cases j) auto
  qed
qed

lemma lastIndexFrom_None:
  "lastIndexFrom needle s i found = None \<longleftrightarrow>
     found = None \<and> (\<forall>j \<le> length s. \<not> prefix needle (drop j s))"
proof (induction s arbitrary: i found)
  case Nil
  then show ?case by auto
next
  case (Cons c cs)
  show ?case
    by (simp add: Cons.IH all_le_Suc)
qed

lemma lastIndexFrom_Some:
  "lastIndexFrom needle s i found = Some k \<Longrightarrow>
     (found = Some k \<and> (\<forall>j \<le> length s. \<not> prefix needle (drop j s))) \<or>
     (\<exists>j \<le> length s. k = i + j \<and> prefix needle (drop j s) \<and>
        (\<forall>j'. j < j' \<and> j' \<le> length s \<longrightarrow> \<not> prefix needle (drop j' s)))"
proof (induction s arbitrary: i found)
  case Nil
  then show ?case by (auto split: if_splits)
next
  case (Cons c cs)
  let ?f = "if prefix needle (c # cs) then Some i else found"
  from Cons.prems have "lastIndexFrom needle cs (i + 1) ?f = Some k" by simp
  from Cons.IH [OF this] show ?case
  proof
    assume a: "?f = Some k \<and> (\<forall>j \<le> length cs. \<not> prefix needle (drop j cs))"
    show ?thesis
    proof (cases "prefix needle (c # cs)")
      case True
      then have "k = i" using a by simp
      have later: "\<forall>j'. 0 < j' \<and> j' \<le> length (c # cs) \<longrightarrow> \<not> prefix needle (drop j' (c # cs))"
      proof (intro allI impI)
        fix j' assume "0 < j' \<and> j' \<le> length (c # cs)"
        then obtain m where "j' = Suc m" "m \<le> length cs" by (cases j') auto
        then show "\<not> prefix needle (drop j' (c # cs))" using a by simp
      qed
      show ?thesis
        by (rule disjI2, rule exI [of _ 0]) (use True \<open>k = i\<close> later in simp)
    next
      case False
      then show ?thesis using a by (simp add: all_le_Suc)
    qed
  next
    assume "\<exists>j \<le> length cs. k = i + 1 + j \<and> prefix needle (drop j cs) \<and>
        (\<forall>j'. j < j' \<and> j' \<le> length cs \<longrightarrow> \<not> prefix needle (drop j' cs))"
    then obtain j where j: "j \<le> length cs" "k = i + 1 + j" "prefix needle (drop j cs)"
      "\<forall>j'. j < j' \<and> j' \<le> length cs \<longrightarrow> \<not> prefix needle (drop j' cs)" by blast
    have later: "\<forall>j'. Suc j < j' \<and> j' \<le> length (c # cs) \<longrightarrow> \<not> prefix needle (drop j' (c # cs))"
    proof (intro allI impI)
      fix j' assume a: "Suc j < j' \<and> j' \<le> length (c # cs)"
      then obtain m where "j' = Suc m" "j < m" "m \<le> length cs" by (cases j') auto
      then show "\<not> prefix needle (drop j' (c # cs))" using j(4) by simp
    qed
    show ?thesis
      by (rule disjI2, rule exI [of _ "Suc j"]) (use j later in simp)
  qed
qed

lemma js_includes_iff:
  "js_includes s needle \<longleftrightarrow> (\<exists>j \<le> length s. prefix needle (drop j s))"
proof (induction s)
  case Nil
  then show ?case by auto
next
  case (Cons c cs)
  have "(\<exists>j \<le> Suc (length cs). prefix needle (drop j (c # cs))) \<longleftrightarrow>
        prefix needle (c # cs) \<or> (\<exists>j \<le> length cs. prefix needle (drop j cs))"
    using all_le_Suc [of "length cs" "\<lambda>j. \<not> prefix needle (drop j (c # cs))"] by auto
  then show ?case using Cons.IH by simp
qed

lemma lastIndexOf_None: "lastIndexOf s needle = None \<longleftrightarrow> \<not> js_includes s needle"
  by (simp add: lastIndexOf_def lastIndexFrom_None js_includes_iff)

lemma lastIndexOf_Some:
  assumes "lastIndexOf s needle = Some k"
  shows "k \<le> length s \<and> prefix needle (drop k s) \<and>
     (\<forall>j. k < j \<and> j \<le> length s \<longrightarrow> \<not> prefix needle (drop j s))"
  using lastIndexFrom_Some [of needle s 0 None k] assms by (auto simp: lastIndexOf_def)

text \<open>
  C5, as the claim states it, fails.  The claim: on displacement (the new text not longer
  than the cursor, and the 200-character tails different) \<open>feed\<close> looks for the longest
  suffix of the old buffer that still appears in the new text, and resets the cursor to
  zero only when no suffix of the old buffer appears there at all.  With the buffer
  \<open>abcdef\<close> (cursor 6) and the new text \<open>efgh\<close>, the suffix \<open>ef\<close> of the old buffer
  appears in the new text, and yet the cursor is reset to zero and the whole new text is
  parsed again: \<open>feed\<close> tries one suffix only, the last \<open>min(6, 4, 500) = 4\<close>
  characters \<open>cdef\<close>.  And with the same buffer and the empty new text, whose length is
  not greater than the cursor and whose tail differs, \<open>feed\<close> sees no displacement:
  it looks for nothing and leaves the cursor at 6.
\<close>

theorem displacement_resets_despite_overlap:
  "length (cleanOutput (asc ''efgh'')) \<le> processedLength (fst (feed 1 (asc ''abcdef'') newParser)) \<and>
   buffer (fst (feed 1 (asc ''abcdef'') newParser)) = asc ''abcdef'' \<and>
   displaced (cleanOutput (asc ''efgh'')) (fst (feed 1 (asc ''abcdef'') newParser)) \<and>
   suffix (asc ''ef'') (asc ''abcdef'') \<and>
   js_includes (asc ''efgh'') (asc ''ef'') \<and>
   displacedCursor (asc ''abcdef'') (cleanOutput (asc ''efgh'')) = 0 \<and>
   textAccumulator (fst (feed 2 (asc ''efgh'') (fst (feed 1 (asc ''abcdef'') newParser))))
     = asc ''abcdef'' @ [0x0A] @ asc ''efgh'' \<and>
   length (cleanOutput []) \<le> processedLength (fst (feed 1 (asc ''abcdef'') newParser)) \<and>
   slice_last 200 (buffer (fst (feed 1 (asc ''abcdef'') newParser))) \<noteq> slice_last 200 (cleanOutput []) \<and>
   \<not> displaced (cleanOutput []) (fst (feed 1 (asc ''abcdef'') newParser)) \<and>
   processedLength (fst (feed 2 [] (fst (feed 1 (asc ''abcdef'') newParser)))) = 6"
  by code_simp

text \<open>
  C5, amended.  Let the new cleaned text be not longer than the cursor, the buffer not
  empty, and the 200-character tails different.  \<open>feed\<close> detects displacement exactly
  when, moreover, the new text is not empty; for an empty new text it only checks for
  completion and leaves the cursor where it is.  On displacement it takes one probe, the
  last \<open>n = min(|buffer|, |new text|, 500)\<close> characters of the old buffer, and looks
  for its last occurrence in the new text.  If the probe occurs, the cursor is rebased to
  just after that last occurrence; if it does not occur (whether or not a shorter suffix
  of the old buffer does), the cursor is reset to zero.  The new text is then parsed
  from the cursor on, or only checked for completion when nothing lies beyond the
  cursor.
\<close>

theorem feed_displacement_rebase:
  fixes p :: parser and raw :: jsstring and now :: int
  defines "cleaned \<equiv> cleanOutput raw"
    and "n \<equiv> min (length (buffer p)) (min (length (cleanOutput raw)) 500)"
    and "oldTail \<equiv> slice_last (min (length (buffer p)) (min (length (cleanOutput raw)) 500)) (buffer p)"
    and "cursor \<equiv> displacedCursor (buffer p) (cleanOutput raw)"
  assumes small: "length (cleanOutput raw) \<le> processedLength p"
    and ne: "buffer p \<noteq> []"
    and tails: "slice_last 200 (buffer p) \<noteq> slice_last 200 (cleanOutput raw)"
  shows "(displaced cleaned p \<longleftrightarrow> cleaned \<noteq> []) \<and>
         (cleaned = [] \<longrightarrow> feed now raw p = (checkCompletion now [] p, [])) \<and>
         (cleaned \<noteq> [] \<and> js_includes cleaned oldTail \<longrightarrow>
            (\<exists>idx. lastIndexOf cleaned oldTail = Some idx \<and> cursor = idx + n \<and>
               idx + n \<le> length cleaned \<and> prefix oldTail (drop idx cleaned) \<and>
               (\<forall>j. idx < j \<and> j \<le> length cleaned \<longrightarrow> \<not> prefix oldTail (drop j cleaned)))) \<and>
         (cleaned \<noteq> [] \<and> \<not> js_includes cleaned oldTail \<longrightarrow> cursor = 0) \<and>
         (cleaned \<noteq> [] \<longrightarrow>
          feed now raw p =
           (if length cleaned \<le> cursor
            then (checkCompletion now cleaned (p\<lparr>processedLength := cursor\<rparr>), [])
            else (checkCompletion now cleaned
                    (fst (parseContent now (drop cursor cleaned)
                           (p\<lparr>processedLength := length cleaned, buffer := cleaned\<rparr>))),
                  snd (parseContent now (drop cursor cleaned)
                         (p\<lparr>processedLength := length cleaned, buffer := cleaned\<rparr>)))))"
proof -
  have dis: "displaced cleaned p \<longleftrightarrow> cleaned \<noteq> []"
    using tails by (simp add: displaced_def cleaned_def)
  have empty: "cleaned = [] \<longrightarrow> feed now raw p = (checkCompletion now [] p, [])"
    using small ne by (simp add: feed_def Let_def cleaned_def displaced_def)
  have cur: "cursor = (case lastIndexOf cleaned oldTail of Some idx \<Rightarrow> idx + n | None \<Rightarrow> 0)"
    unfolding cursor_def displacedCursor_def Let_def oldTail_def n_def cleaned_def by (rule refl)
  have found: "cleaned \<noteq> [] \<and> js_includes cleaned oldTail \<longrightarrow>
            (\<exists>idx. lastIndexOf cleaned oldTail = Some idx \<and> cursor = idx + n \<and>
               idx + n \<le> length cleaned \<and> prefix oldTail (drop idx cleaned) \<and>
               (\<forall>j. idx < j \<and> j \<le> length cleaned \<longrightarrow> \<not> prefix oldTail (drop j cleaned)))"
  proof (intro impI, elim conjE)
    assume pos: "cleaned \<noteq> []" and inc: "js_includes cleaned oldTail"
    have npos: "0 < n" "n \<le> length (buffer p)" using pos ne by (simp_all add: n_def cleaned_def)
    have len: "length oldTail = n"
      using npos by (simp add: oldTail_def n_def slice_last_def)
    from inc obtain idx where idx: "lastIndexOf cleaned oldTail = Some idx"
      using lastIndexOf_None [of cleaned oldTail] by (cases "lastIndexOf cleaned oldTail") auto
    note spec = lastIndexOf_Some [OF idx]
    have "length oldTail \<le> length (drop idx cleaned)"
      using spec by (auto dest: prefix_length_le)
    then have "idx + n \<le> length cleaned" using len spec by auto
    then show "\<exists>idx. lastIndexOf cleaned oldTail = Some idx \<and> cursor = idx + n \<and>
               idx + n \<le> length cleaned \<and> prefix oldTail (drop idx cleaned) \<and>
               (\<forall>j. idx < j \<and> j \<le> length cleaned \<longrightarrow> \<not> prefix oldTail (drop j cleaned))"
      using idx spec cur by auto
  qed
  have absent: "cleaned \<noteq> [] \<and> \<not> js_includes cleaned oldTail \<longrightarrow> cursor = 0"
    using lastIndexOf_None [of cleaned oldTail] cur by auto
  have run: "cleaned \<noteq> [] \<longrightarrow> feed now raw p =
           (if length cleaned \<le> cursor
            then (checkCompletion now cleaned (p\<lparr>processedLength := cursor\<rparr>), [])
            else (checkCompletion now cleaned
                    (fst (parseContent now (drop cursor cleaned)
                           (p\<lparr>processedLength := length cleaned, buffer := cleaned\<rparr>))),
                  snd (parseContent now (drop cursor cleaned)
                         (p\<lparr>processedLength := length cleaned, buffer := cleaned\<rparr>))))"
    using small ne tails by (simp add: feed_def Let_def cleaned_def cursor_def displaced_def)
  from dis empty found absent run show ?thesis by blast
qed

theorem feed_displacement_rebase_witness:
  "length (cleanOutput (asc ''def'')) \<le> processedLength (fst (feed 1 (asc ''abcdef'') newParser)) \<and>
   buffer (fst (feed 1 (asc ''abcdef'') newParser)) \<noteq> [] \<and>
   slice_last 200 (buffer (fst (feed 1 (asc ''abcdef'') newParser)))
     \<noteq> slice_last 200 (cleanOutput (asc ''def'')) \<and>
   cleanOutput (asc ''def'') \<noteq> [] \<and>
   js_includes (cleanOutput (asc ''def'')) (asc ''def'') \<and>
   displacedCursor (buffer (fst (feed 1 (asc ''abcdef'') newParser))) (cleanOutput (asc ''def'')) = 3 \<and>
   feed 2 (asc ''def'') (fst (feed 1 (asc ''abcdef'') newParser))
     = (checkCompletion 2 (cleanOutput (asc ''def''))
          ((fst (feed 1 (asc ''abcdef'') newParser))\<lparr>processedLength := 3\<rparr>), []) \<and>
   length (cleanOutput []) \<le> processedLength (fst (feed 1 (asc ''abcdef'') newParser)) \<and>
   slice_last 200 (buffer (fst (feed 1 (asc ''abcdef'') newParser))) \<noteq> slice_last 200 (cleanOutput []) \<and>
   cleanOutput [] = [] \<and>
   feed 2 [] (fst (feed 1 (asc ''abcdef'') newParser))
     = (checkCompletion 2 [] (fst (feed 1 (asc ''abcdef'') newParser)), []) \<and>
   \<not> js_includes (cleanOutput (asc ''efgh'')) (slice_last 4 (asc ''abcdef'')) \<and>
   displacedCursor (buffer (fst (feed 1 (asc ''abcdef'') newParser))) (cleanOutput (asc ''efgh'')) = 0"
proof -
  let ?p = "fst (feed 1 (asc ''abcdef'') newParser)"
  have h1: "length (cleanOutput (asc ''def'')) \<le> processedLength ?p" by code_simp
  have h2: "buffer ?p \<noteq> []" by code_simp
  have h3: "slice_last 200 (buffer ?p) \<noteq> slice_last 200 (cleanOutput (asc ''def''))" by code_simp
  have h4: "cleanOutput (asc ''def'') \<noteq> []" by code_simp
  have h5: "js_includes (cleanOutput (asc ''def'')) (asc ''def'')" by code_simp
  have c: "displacedCursor (buffer ?p) (cleanOutput (asc ''def'')) = 3" by code_simp
  have l: "length (cleanOutput (asc ''def'')) = 3" by code_simp
  from feed_displacement_rebase [OF h1 h2 h3, of 2] h4
  have r1: "feed 2 (asc ''def'') ?p
     = (checkCompletion 2 (cleanOutput (asc ''def'')) (?p\<lparr>processedLength := 3\<rparr>), [])"
    by (simp add: c l)
  have e1: "length (cleanOutput []) \<le> processedLength ?p" by code_simp
  have e3: "slice_last 200 (buffer ?p) \<noteq> slice_last 200 (cleanOutput [])" by code_simp
  have e4: "cleanOutput [] = []" by code_simp
  from feed_displacement_rebase [OF e1 h2 e3, of 2] e4
  have r2: "feed 2 [] ?p = (checkCompletion 2 [] ?p, [])" by simp
  have g1: "length (cleanOutput (asc ''efgh'')) \<le> processedLength ?p" by code_simp
  have g3: "slice_last 200 (buffer ?p) \<noteq> slice_last 200 (cleanOutput (asc ''efgh''))" by code_simp
  have g4: "cleanOutput (asc ''efgh'') \<noteq> []" by code_simp
  have g5: "\<not> js_includes (cleanOutput (asc ''efgh'')) (slice_last 4 (asc ''abcdef''))" by code_simp
  have g6: "buffer ?p = asc ''abcdef''" by code_simp
  have g7: "min (length (asc ''abcdef'')) (min (length (cleanOutput (asc ''efgh''))) 500) = 4" by code_simp
  from feed_displacement_rebase [OF g1 h2 g3, of 2] g4 g5
  have r3: "displacedCursor (buffer ?p) (cleanOutput (asc ''efgh'')) = 0"
    by (simp add: g6 g7)
  from h1 h2 h3 h4 h5 c r1 e1 e3 e4 r2 g5 r3 show ?thesis by blast
qed

subsection \<open>Completion revocation\<close>

lemma appendLine_prefix: "prefix acc (appendLine acc s)"
  by (simp add: appendLine_def)

lemma accumulateLine_text:
  "prefix (textAccumulator (fst pb)) (textAccumulator (fst (accumulateLine l c pb)))"
  by (simp add: accumulateLine_def Let_def appendLine_prefix split: ParseState.splits)

lemma classifyLine_text:
  "prefix (textAccumulator (fst pb)) (textAccumulator (fst (classifyLine now l t c pb)))"
  by (simp add: classifyLine_def Let_def appendLine_prefix accumulateLine_text
        split: option.splits)

lemma parseLine_text:
  "prefix (textAccumulator (fst pb)) (textAccumulator (fst (parseLine now l pb)))"
  by (simp add: parseLine_def Let_def classifyLine_text)

lemma fold_parseLine_text:
  "prefix (textAccumulator (fst pb)) (textAccumulator (fst (fold (parseLine now) ls pb)))"
proof (induction ls arbitrary: pb)
  case Nil
  show ?case by simp
next
  case (Cons l ls)
  have "prefix (textAccumulator (fst pb)) (textAccumulator (fst (parseLine now l pb)))"
    by (rule parseLine_text)
  also have "prefix \<dots> (textAccumulator (fst (fold (parseLine now) ls (parseLine now l pb))))"
    by (rule Cons.IH)
  finally show ?case by simp
qed

lemma parseContent_text:
  "prefix (textAccumulator p) (textAccumulator (fst (parseContent now c p)))"
  using fold_parseLine_text [of "(p, [])" now "split_on 0x0A c"]
  by (simp add: parseContent_def Let_def)

lemma feed_text:
  "prefix (textAccumulator p) (textAccumulator (fst (feed now raw p)))"
proof -
  have "\<And>q c. textAccumulator q = textAccumulator p \<Longrightarrow>
      prefix (textAccumulator p) (textAccumulator (fst (parseContent now c q)))"
    using parseContent_text by metis
  then show ?thesis
    by (simp add: feed_def Let_def checkCompletion_fields)
qed

lemma feed_blocks:
  "blocks (fst (feed now raw p)) = blocks p @ snd (feed now raw p)"
  by (simp add: feed_def Let_def checkCompletion_fields parseContent_fields)

lemma dropWhile_append_keep:
  "dropWhile P xs \<noteq> [] \<Longrightarrow> dropWhile P (xs @ ys) = dropWhile P xs @ ys"
  by (induction xs) auto

lemma dropWhile_append_all:
  "dropWhile P xs = [] \<Longrightarrow> dropWhile P (xs @ ys) = dropWhile P ys"
  by (induction xs) (auto split: if_splits)

lemma trim_prefix_append: "prefix (trim a) (trim (a @ d))"
proof (cases "dropWhile isWhiteSpace a = []")
  case True
  have "trim a = []" unfolding trim_def True by simp
  then show ?thesis by simp
next
  case False
  define a' where "a' = dropWhile isWhiteSpace a"
  have front: "dropWhile isWhiteSpace (a @ d) = a' @ d"
    using False by (simp add: a'_def dropWhile_append_keep)
  have ta: "trim a = rev (dropWhile isWhiteSpace (rev a'))" by (simp add: trim_def a'_def)
  have tad: "trim (a @ d) = rev (dropWhile isWhiteSpace (rev d @ rev a'))"
    by (simp add: trim_def front)
  show ?thesis
  proof (cases "dropWhile isWhiteSpace (rev d) = []")
    case True
    then have "dropWhile isWhiteSpace (rev d @ rev a') = dropWhile isWhiteSpace (rev a')"
      by (rule dropWhile_append_all)
    then show ?thesis by (simp add: ta tad)
  next
    case False
    then have "dropWhile isWhiteSpace (rev d @ rev a') = dropWhile isWhiteSpace (rev d) @ rev a'"
      by (rule dropWhile_append_keep)
    then have e: "trim (a @ d) = a' @ rev (dropWhile isWhiteSpace (rev d))" by (simp add: tad)
    have "suffix (dropWhile isWhiteSpace (rev a')) (rev a')" by (rule suffix_dropWhile)
    then have "prefix (rev (dropWhile isWhiteSpace (rev a'))) (rev (rev a'))"
      unfolding suffix_to_prefix by simp
    then have "prefix (trim a) a'" by (simp add: ta)
    then show ?thesis by (simp add: e prefix_def) (metis append_assoc)
  qed
qed

lemma getTextResponse_prefix:
  "prefix (trim (textAccumulator p)) (fst (getTextResponse p))"
  by (simp add: getTextResponse_def Let_def appendLine_def trim_prefix_append)


lemma parseLine_skipped: "skippedLine l \<Longrightarrow> parseLine now l pb = pb"
  by (auto simp: parseLine_def skippedLine_def Let_def)

lemma cleanedLine_nonempty: "\<not> skippedLine l \<Longrightarrow> cleanedLine l \<noteq> []"
  by (auto simp: skippedLine_def cleanedLine_def)

lemma parseLine_classify:
  "\<not> skippedLine l \<Longrightarrow> parseLine now l pb = classifyLine now l (trim l) (cleanedLine l) pb"
  by (auto simp: parseLine_def skippedLine_def cleanedLine_def Let_def)

lemma parseLine_plain:
  assumes "plainLine l" "state (fst pb) \<noteq> THINKING" "state (fst pb) \<noteq> TOOL_USE"
  shows "textAccumulator (fst (parseLine now l pb))
           = appendLine (textAccumulator (fst pb)) (cleanedLine l)"
    and "state (fst (parseLine now l pb)) = TEXT_OUTPUT"
proof -
  have ns: "\<not> skippedLine l" using assms(1) by (simp add: plainLine_def)
  have c: "parseLine now l pb = accumulateLine l (cleanedLine l) pb"
    using assms by (simp add: parseLine_classify [OF ns] classifyLine_def Let_def plainLine_def)
  have u: "\<not> USAGE l" using assms(1) by (simp add: plainLine_def)
  show "textAccumulator (fst (parseLine now l pb))
           = appendLine (textAccumulator (fst pb)) (cleanedLine l)"
    using assms(2,3) u cleanedLine_nonempty [OF ns]
    by (simp add: c accumulateLine_def Let_def split: ParseState.splits)
  show "state (fst (parseLine now l pb)) = TEXT_OUTPUT"
    using assms(2,3)
    by (simp add: c accumulateLine_def Let_def split: ParseState.splits)
qed

lemma parseLine_tool:
  assumes "toolInvocation l"
  shows "textAccumulator (fst (parseLine now l pb)) = textAccumulator (fst pb)"
    and "state (fst (parseLine now l pb)) = TOOL_USE"
  using assms
  by (simp_all add: toolInvocation_def parseLine_classify classifyLine_def Let_def)

lemma parseLine_response:
  assumes "responseLine l t"
  shows "textAccumulator (fst (parseLine now l pb)) = appendLine (textAccumulator (fst pb)) t"
    and "state (fst (parseLine now l pb)) = TEXT_OUTPUT"
  using assms
  by (simp_all add: responseLine_def parseLine_classify classifyLine_def Let_def)

lemma fold_parseLine_skipped:
  "fold (parseLine now) ls pb = fold (parseLine now) (filter (\<lambda>l. \<not> skippedLine l) ls) pb"
  by (induction ls arbitrary: pb) (simp_all add: parseLine_skipped)

lemma fold_parseLine_plain:
  assumes "list_all plainLine os" "state (fst pb) \<noteq> THINKING" "state (fst pb) \<noteq> TOOL_USE"
  shows "textAccumulator (fst (fold (parseLine now) os pb))
           = foldl appendLine (textAccumulator (fst pb)) (map cleanedLine os) \<and>
         state (fst (fold (parseLine now) os pb)) \<noteq> THINKING \<and>
         state (fst (fold (parseLine now) os pb)) \<noteq> TOOL_USE"
  using assms
proof (induction os arbitrary: pb)
  case Nil
  then show ?case by simp
next
  case (Cons l os)
  from Cons.prems have l: "plainLine l" and os: "list_all plainLine os" by simp_all
  note step = parseLine_plain [OF l Cons.prems(2,3), of now]
  have "state (fst (parseLine now l pb)) \<noteq> THINKING" "state (fst (parseLine now l pb)) \<noteq> TOOL_USE"
    using step(2) by simp_all
  from Cons.IH [OF os this] show ?case using step(1) by simp
qed

lemma feed_new_accumulator:
  assumes "processedLength p < length (cleanOutput raw)"
  shows "textAccumulator (fst (feed now raw p)) =
           textAccumulator (fst (fold (parseLine now) (unparsedLines raw p)
              (p\<lparr>processedLength := length (cleanOutput raw), buffer := cleanOutput raw\<rparr>, [])))"
  using assms
  by (simp add: feed_def Let_def checkCompletion_fields parseContent_def unparsedLines_def
        fold_parseLine_skipped [symmetric])

text \<open>
  C4.  Let the parser be in the state \<open>complete\<close> when the pane is seen to have changed.
  The bridge then revokes the completion: the state is \<open>text_output\<close>, the prompt
  timestamp is zero, \<open>isComplete\<close> is false, and what has been accumulated is kept.
  The new capture is then fed to the parser, which goes on accumulating: the text
  accumulator and the block list only grow, and the text that \<open>getTextResponse\<close>
  returns afterwards begins with the (trimmed) text accumulator, which itself begins
  with the text accumulated before the revocation.  What is accumulated after the
  revocation is the text of the new lines.  When the lines beyond the cursor (those that
  are not skipped) are lines of plain reply text, the accumulator is the text from
  before the revocation followed by each of these lines, in order, on a line of its
  own.  When they are lines of plain text, then a tool-invocation line, a response line
  and again lines of plain text, the accumulator is the text from before the revocation
  followed by the plain lines, the text of the response and the plain lines after it.
  In both cases the text that \<open>getTextResponse\<close> returns begins with this accumulated
  text, trimmed.
\<close>

theorem revocation_resumes_accumulation:
  assumes "getState p = COMPLETE"
  shows "revokeIfComplete p = revokeCompletion p \<and>
     getState (revokeCompletion p) = TEXT_OUTPUT \<and>
     promptDetectedAt (revokeCompletion p) = 0 \<and>
     \<not> isComplete t (revokeCompletion p) \<and>
     textAccumulator (revokeCompletion p) = textAccumulator p \<and>
     blocks (revokeCompletion p) = blocks p \<and>
     prefix (textAccumulator p) (textAccumulator (fst (feed now raw (revokeCompletion p)))) \<and>
     blocks (fst (feed now raw (revokeCompletion p)))
       = blocks p @ snd (feed now raw (revokeCompletion p)) \<and>
     prefix (trim (textAccumulator p))
       (fst (getTextResponse (fst (feed now raw (revokeCompletion p))))) \<and>
     prefix (trim (textAccumulator (fst (feed now raw (revokeCompletion p)))))
       (fst (getTextResponse (fst (feed now raw (revokeCompletion p))))) \<and>
     (processedLength p < length (cleanOutput raw) \<and>
      unparsedLines raw p = os \<and> list_all plainLine os \<longrightarrow>
        textAccumulator (fst (feed now raw (revokeCompletion p)))
          = foldl appendLine (textAccumulator p) (map cleanedLine os) \<and>
        prefix (trim (foldl appendLine (textAccumulator p) (map cleanedLine os)))
          (fst (getTextResponse (fst (feed now raw (revokeCompletion p)))))) \<and>
     (processedLength p < length (cleanOutput raw) \<and>
      unparsedLines raw p = front @ tline # rline # rest \<and> list_all plainLine front \<and>
      toolInvocation tline \<and> responseLine rline rtext \<and> list_all plainLine rest \<longrightarrow>
        textAccumulator (fst (feed now raw (revokeCompletion p)))
          = foldl appendLine (textAccumulator p)
              (map cleanedLine front @ rtext # map cleanedLine rest) \<and>
        prefix (trim (foldl appendLine (textAccumulator p)
                        (map cleanedLine front @ rtext # map cleanedLine rest)))
          (fst (getTextResponse (fst (feed now raw (revokeCompletion p))))))"
proof -
  let ?r = "revokeCompletion p"
  let ?q = "fst (feed now raw ?r)"
  let ?start = "(?r\<lparr>processedLength := length (cleanOutput raw), buffer := cleanOutput raw\<rparr>,
                 [] :: ParsedBlock list)"
  have r: "?r = p\<lparr>state := TEXT_OUTPUT, promptDetectedAt := 0\<rparr>"
    using assms by (simp add: revokeCompletion_def getState_def)
  have a: "revokeIfComplete p = ?r" using assms by (simp add: revokeIfComplete_def)
  have b: "getState ?r = TEXT_OUTPUT" "promptDetectedAt ?r = 0" "\<not> isComplete t ?r"
    "textAccumulator ?r = textAccumulator p" "blocks ?r = blocks p"
    "processedLength ?r = processedLength p"
    by (simp_all add: r getState_def isComplete_def)
  have c: "prefix (textAccumulator p) (textAccumulator ?q)"
    using feed_text [of ?r now raw] b(4) by simp
  have d: "blocks ?q = blocks p @ snd (feed now raw ?r)"
    using feed_blocks [of now raw ?r] b(5) by simp
  have e2: "prefix (trim (textAccumulator ?q)) (fst (getTextResponse ?q))"
    by (rule getTextResponse_prefix)
  have "prefix (trim (textAccumulator p)) (trim (textAccumulator ?q))"
    using c trim_prefix_append by (auto simp: prefix_def)
  also note e2
  finally have e1: "prefix (trim (textAccumulator p)) (fst (getTextResponse ?q))" .
  have st: "state (fst ?start) \<noteq> THINKING" "state (fst ?start) \<noteq> TOOL_USE"
    "textAccumulator (fst ?start) = textAccumulator p"
    by (simp_all add: r)
  have lines: "unparsedLines raw ?r = unparsedLines raw p"
    by (simp add: unparsedLines_def b(6))
  have acc: "processedLength p < length (cleanOutput raw) \<Longrightarrow>
      textAccumulator ?q = textAccumulator (fst (fold (parseLine now) (unparsedLines raw p) ?start))"
    using feed_new_accumulator [of ?r raw now] by (simp add: b(6) lines)
  have f: "processedLength p < length (cleanOutput raw) \<and>
      unparsedLines raw p = os \<and> list_all plainLine os \<longrightarrow>
        textAccumulator ?q = foldl appendLine (textAccumulator p) (map cleanedLine os) \<and>
        prefix (trim (foldl appendLine (textAccumulator p) (map cleanedLine os)))
          (fst (getTextResponse ?q))"
  proof (intro impI, elim conjE)
    assume new: "processedLength p < length (cleanOutput raw)"
      and ls: "unparsedLines raw p = os" and pl: "list_all plainLine os"
    from fold_parseLine_plain [OF pl st(1,2), of now] st(3)
    have "textAccumulator ?q = foldl appendLine (textAccumulator p) (map cleanedLine os)"
      by (simp add: acc [OF new] ls)
    with e2 show "textAccumulator ?q = foldl appendLine (textAccumulator p) (map cleanedLine os) \<and>
        prefix (trim (foldl appendLine (textAccumulator p) (map cleanedLine os)))
          (fst (getTextResponse ?q))"
      by simp
  qed
  have g: "processedLength p < length (cleanOutput raw) \<and>
      unparsedLines raw p = front @ tline # rline # rest \<and> list_all plainLine front \<and>
      toolInvocation tline \<and> responseLine rline rtext \<and> list_all plainLine rest \<longrightarrow>
        textAccumulator ?q = foldl appendLine (textAccumulator p)
              (map cleanedLine front @ rtext # map cleanedLine rest) \<and>
        prefix (trim (foldl appendLine (textAccumulator p)
                        (map cleanedLine front @ rtext # map cleanedLine rest)))
          (fst (getTextResponse ?q))"
  proof (intro impI, elim conjE)
    assume new: "processedLength p < length (cleanOutput raw)"
      and ls: "unparsedLines raw p = front @ tline # rline # rest"
      and p1: "list_all plainLine front" and tool: "toolInvocation tline"
      and resp: "responseLine rline rtext" and p2: "list_all plainLine rest"
    let ?s1 = "fold (parseLine now) front ?start"
    let ?s2 = "parseLine now tline ?s1"
    let ?s3 = "parseLine now rline ?s2"
    have a1: "textAccumulator (fst ?s1) = foldl appendLine (textAccumulator p) (map cleanedLine front)"
      using fold_parseLine_plain [OF p1 st(1,2), of now] st(3) by simp
    have a2: "textAccumulator (fst ?s2) = textAccumulator (fst ?s1)"
      by (rule parseLine_tool(1) [OF tool])
    have a3: "textAccumulator (fst ?s3) = appendLine (textAccumulator (fst ?s2)) rtext"
      "state (fst ?s3) = TEXT_OUTPUT"
      by (rule parseLine_response [OF resp])+
    have s3: "state (fst ?s3) \<noteq> THINKING" "state (fst ?s3) \<noteq> TOOL_USE"
      using a3(2) by simp_all
    have a4: "textAccumulator (fst (fold (parseLine now) rest ?s3))
        = foldl appendLine (textAccumulator (fst ?s3)) (map cleanedLine rest)"
      using fold_parseLine_plain [OF p2 s3, of now] by simp
    have "fold (parseLine now) (front @ tline # rline # rest) ?start = fold (parseLine now) rest ?s3"
      by simp
    then have "textAccumulator ?q = foldl appendLine (textAccumulator p)
              (map cleanedLine front @ rtext # map cleanedLine rest)"
      by (simp add: acc [OF new] ls a4 a3(1) a2 a1)
    with e2 show "textAccumulator ?q = foldl appendLine (textAccumulator p)
              (map cleanedLine front @ rtext # map cleanedLine rest) \<and>
        prefix (trim (foldl appendLine (textAccumulator p)
                        (map cleanedLine front @ rtext # map cleanedLine rest)))
          (fst (getTextResponse ?q))"
      by simp
  qed
  from a b(1-5) c d e1 e2 f g show ?thesis by blast
qed

text \<open>The parser that has seen \<open>firstCapture\<close> is complete, with the text \<open>first\<close>.
  After the revocation, \<open>toolCapture\<close> brings a tool invocation, the response
  \<open>second\<close> and the plain line \<open>more text\<close>, and \<open>plainCapture\<close> brings two plain
  lines; when the prompt has come back (\<open>finishedCapture\<close>) the text returned is that
  of both phases.\<close>

theorem revocation_resumes_accumulation_witness:
  "getState (fst (feed 1000 firstCapture newParser)) = COMPLETE \<and>
   processedLength (fst (feed 1000 firstCapture newParser)) < length (cleanOutput toolCapture) \<and>
   unparsedLines toolCapture (fst (feed 1000 firstCapture newParser))
     = [] @ ([0x25CF] @ asc '' Read(x)'') # ([0x23FA] @ asc '' second'') # [asc ''more text''] \<and>
   toolInvocation ([0x25CF] @ asc '' Read(x)'') \<and>
   responseLine ([0x23FA] @ asc '' second'') (asc ''second'') \<and>
   list_all plainLine [asc ''more text''] \<and>
   textAccumulator (fst (feed 5000 toolCapture
       (revokeCompletion (fst (feed 1000 firstCapture newParser)))))
     = asc ''first'' @ [0x0A] @ asc ''second'' @ [0x0A] @ asc ''more text'' \<and>
   processedLength (fst (feed 1000 firstCapture newParser)) < length (cleanOutput plainCapture) \<and>
   unparsedLines plainCapture (fst (feed 1000 firstCapture newParser))
     = [asc ''and more'', asc ''to say''] \<and>
   list_all plainLine [asc ''and more'', asc ''to say''] \<and>
   textAccumulator (fst (feed 5000 plainCapture
       (revokeCompletion (fst (feed 1000 firstCapture newParser)))))
     = asc ''first'' @ [0x0A] @ asc ''and more'' @ [0x0A] @ asc ''to say'' \<and>
   getState (revokeIfComplete (fst (feed 1000 firstCapture newParser))) = TEXT_OUTPUT \<and>
   promptDetectedAt (revokeIfComplete (fst (feed 1000 firstCapture newParser))) = 0 \<and>
   fst (getTextResponse (fst (feed 1000 firstCapture newParser))) = asc ''first'' \<and>
   fst (getTextResponse (fst (feed 5000 finishedCapture
       (revokeCompletion (fst (feed 1000 firstCapture newParser))))))
     = asc ''first'' @ [0x0A] @ asc ''second'' @ [0x0A] @ asc ''more text''"
proof -
  let ?p = "fst (feed 1000 firstCapture newParser)"
  let ?tool = "[0x25CF] @ asc '' Read(x)''"
  let ?resp = "[0x23FA] @ asc '' second''"
  have h: "getState ?p = COMPLETE" by code_simp
  have t1: "processedLength ?p < length (cleanOutput toolCapture)" by code_simp
  have t2: "unparsedLines toolCapture ?p = [] @ ?tool # ?resp # [asc ''more text'']"
    by code_simp
  have t3: "list_all plainLine []" by simp
  have t4: "toolInvocation ?tool" by code_simp
  have t5: "responseLine ?resp (asc ''second'')" by code_simp
  have t6: "list_all plainLine [asc ''more text'']" by code_simp
  have acc0: "textAccumulator ?p = asc ''first''" by code_simp
  have cl: "map cleanedLine [asc ''more text''] = [asc ''more text'']"
    "map cleanedLine [asc ''and more'', asc ''to say''] = [asc ''and more'', asc ''to say'']"
    by code_simp+
  note inst1 = revocation_resumes_accumulation
    [OF h, where now = 5000 and raw = toolCapture and front = "[]" and tline = ?tool
       and rline = ?resp and rtext = "asc ''second''" and rest = "[asc ''more text'']"]
  from inst1 t1 t2 t3 t4 t5 t6
  have "textAccumulator (fst (feed 5000 toolCapture (revokeCompletion ?p)))
      = foldl appendLine (textAccumulator ?p)
          (map cleanedLine [] @ asc ''second'' # map cleanedLine [asc ''more text''])"
    by blast
  also have "\<dots> = asc ''first'' @ [0x0A] @ asc ''second'' @ [0x0A] @ asc ''more text''"
    unfolding acc0 cl by code_simp
  finally have v1: "textAccumulator (fst (feed 5000 toolCapture (revokeCompletion ?p)))
      = asc ''first'' @ [0x0A] @ asc ''second'' @ [0x0A] @ asc ''more text''" .
  have p1: "processedLength ?p < length (cleanOutput plainCapture)" by code_simp
  have p2: "unparsedLines plainCapture ?p = [asc ''and more'', asc ''to say'']" by code_simp
  have p3: "list_all plainLine [asc ''and more'', asc ''to say'']" by code_simp
  note inst2 = revocation_resumes_accumulation
    [OF h, where now = 5000 and raw = plainCapture and os = "[asc ''and more'', asc ''to say'']"]
  from inst2 p1 p2 p3
  have "textAccumulator (fst (feed 5000 plainCapture (revokeCompletion ?p)))
      = foldl appendLine (textAccumulator ?p) (map cleanedLine [asc ''and more'', asc ''to say''])"
    by blast
  also have "\<dots> = asc ''first'' @ [0x0A] @ asc ''and more'' @ [0x0A] @ asc ''to say''"
    unfolding acc0 cl by code_simp
  finally have v2: "textAccumulator (fst (feed 5000 plainCapture (revokeCompletion ?p)))
      = asc ''first'' @ [0x0A] @ asc ''and more'' @ [0x0A] @ asc ''to say''" .
  have s: "getState (revokeIfComplete ?p) = TEXT_OUTPUT"
    "promptDetectedAt (revokeIfComplete ?p) = 0" using inst1 by simp_all
  have v3: "fst (getTextResponse ?p) = asc ''first''" by code_simp
  have v4: "fst (getTextResponse (fst (feed 5000 finishedCapture (revokeCompletion ?p))))
     = asc ''first'' @ [0x0A] @ asc ''second'' @ [0x0A] @ asc ''more text''" by code_simp
  from h t1 t2 t4 t5 t6 v1 p1 p2 p3 v2 s v3 v4 show ?thesis by blast
qed

section \<open>Properties of the bridge\<close>

subsection \<open>The lock\<close>

text \<open>
  C7, as the claim states it, fails.  The claim: for every session identity, when
  \<open>acquireLock\<close> does not refuse, it creates and persists a lock of that identity whose
  expiry is the acquisition time plus the lock timeout.  The lock records the
  acquisition time and computes the expiry from two readings of the clock: when the
  clock goes from 6000 to 6001 between them, the lock of \<open>s1\<close> is acquired at 6000
  and expires at 66001, not at 66000.  And for the identity \<open>__proto__\<close>, which
  the lock file of \<open>demoBridge\<close> does not hold, \<open>acquireLock\<close> returns a lock and the
  lock file holds none of that identity afterwards.
\<close>

theorem acquireLock_expiry_and_persistence_not_as_claimed:
  "map_option acquiredAt
     (fst (acquireLock demoEnv \<lparr> checkNow = 6000, acquireNow = 6000, expiryNow = 6001 \<rparr>
             (asc ''s1'') demoBridge)) = Some 6000 \<and>
   map_option expiresAt
     (fst (acquireLock demoEnv \<lparr> checkNow = 6000, acquireNow = 6000, expiryNow = 6001 \<rparr>
             (asc ''s1'') demoBridge)) = Some 66001 \<and>
   TMUX_LOCK_TIMEOUT demoEnv = 60000 \<and>
   loadLocks demoBridge (asc ''__proto__'') = None \<and>
   map_option expiresAt
     (fst (acquireLock demoEnv (atOnce 6000) (asc ''__proto__'') demoBridge)) = Some 66000 \<and>
   loadLocks (snd (acquireLock demoEnv (atOnce 6000) (asc ''__proto__'') demoBridge))
     (asc ''__proto__'') = None"
  by code_simp

text \<open>
  C7, amended.  For every session identity other than \<open>__proto__\<close> and every lock
  file, \<open>acquireLock\<close> refuses (returns no lock) exactly when the file holds a lock of
  that identity whose expiry time is later than the clock read at the test; when it
  refuses, it leaves the bridge and its files as they were; otherwise it returns a lock
  of that identity, whose acquisition time is the clock read next and whose expiry is
  the clock read after that plus \<open>TMUX_LOCK_TIMEOUT\<close>, and the lock file holds this
  lock for the identity.  The expiry is thus at least the acquisition time plus the
  timeout when the clock has not gone back between the two readings, and equal to it
  when they are the same.
\<close>

theorem acquireLock_refuses_iff_held:
  assumes "name \<noteq> asc ''__proto__''"
  shows
  "(fst (acquireLock env clock name b) = None \<longleftrightarrow>
      (\<exists>l. loadLocks b name = Some l \<and> checkNow clock < expiresAt l)) \<and>
   (fst (acquireLock env clock name b) = None \<longrightarrow> snd (acquireLock env clock name b) = b) \<and>
   (fst (acquireLock env clock name b) \<noteq> None \<longrightarrow>
      (\<exists>lock. fst (acquireLock env clock name b) = Some lock \<and>
         lockSessionName lock = name \<and> acquiredAt lock = acquireNow clock \<and>
         expiresAt lock = expiryNow clock + TMUX_LOCK_TIMEOUT env \<and>
         (acquireNow clock \<le> expiryNow clock \<longrightarrow>
            acquiredAt lock + TMUX_LOCK_TIMEOUT env \<le> expiresAt lock) \<and>
         (acquireNow clock = expiryNow clock \<longrightarrow>
            expiresAt lock = acquiredAt lock + TMUX_LOCK_TIMEOUT env) \<and>
         loadLocks (snd (acquireLock env clock name b)) name = Some lock))"
  using assms
  by (cases "loadLocks b name")
     (auto simp: acquireLock_def Let_def saveLocks_def loadLocks_def assignKey_def)

theorem acquireLock_refuses_iff_held_witness:
  "asc ''s1'' \<noteq> asc ''__proto__'' \<and>
   loadLocks demoBridge (asc ''s1'') = Some (demoLock (asc ''s1'') 5000) \<and>
   1000 < expiresAt (demoLock (asc ''s1'') 5000) \<and>
   fst (acquireLock demoEnv (atOnce 1000) (asc ''s1'') demoBridge) = None \<and>
   snd (acquireLock demoEnv (atOnce 1000) (asc ''s1'') demoBridge) = demoBridge \<and>
   map_option expiresAt (fst (acquireLock demoEnv (atOnce 6000) (asc ''s1'') demoBridge))
     = Some 66000 \<and>
   map_option expiresAt
     (loadLocks (snd (acquireLock demoEnv (atOnce 6000) (asc ''s1'') demoBridge)) (asc ''s1''))
     = Some 66000"
proof -
  have ne: "asc ''s1'' \<noteq> asc ''__proto__''" by code_simp
  have held: "loadLocks demoBridge (asc ''s1'') = Some (demoLock (asc ''s1'') 5000)"
    by code_simp
  have future: "1000 < expiresAt (demoLock (asc ''s1'') 5000)" by code_simp
  have c: "checkNow (atOnce 1000) = 1000" "checkNow (atOnce 6000) = 6000"
    "expiryNow (atOnce 6000) = 6000" by (simp_all add: atOnce_def)
  have later: "\<not> (\<exists>l. loadLocks demoBridge (asc ''s1'') = Some l \<and> 6000 < expiresAt l)"
    by (simp add: held demoLock_def)
  note at1000 = acquireLock_refuses_iff_held [OF ne, of demoEnv "atOnce 1000" demoBridge]
  note at6000 = acquireLock_refuses_iff_held [OF ne, of demoEnv "atOnce 6000" demoBridge]
  have refused: "fst (acquireLock demoEnv (atOnce 1000) (asc ''s1'') demoBridge) = None"
    using at1000 held future c by auto
  then have same: "snd (acquireLock demoEnv (atOnce 1000) (asc ''s1'') demoBridge) = demoBridge"
    using at1000 by blast
  have "fst (acquireLock demoEnv (atOnce 6000) (asc ''s1'') demoBridge) \<noteq> None"
    using at6000 later c by auto
  then obtain lock where
    "fst (acquireLock demoEnv (atOnce 6000) (asc ''s1'') demoBridge) = Some lock"
    "expiresAt lock = expiryNow (atOnce 6000) + TMUX_LOCK_TIMEOUT demoEnv"
    "loadLocks (snd (acquireLock demoEnv (atOnce 6000) (asc ''s1'') demoBridge)) (asc ''s1'')
       = Some lock"
    using at6000 by blast
  then have granted:
    "map_option expiresAt (fst (acquireLock demoEnv (atOnce 6000) (asc ''s1'') demoBridge))
       = Some 66000"
    "map_option expiresAt
       (loadLocks (snd (acquireLock demoEnv (atOnce 6000) (asc ''s1'') demoBridge)) (asc ''s1''))
       = Some 66000"
    by (simp_all add: demoEnv_def c)
  from ne held future refused same granted show ?thesis by blast
qed

text \<open>
  C8, as the claim states it, fails.  The claim: after any acquire, no lock whose expiry
  time has passed remains in the lock file, locks of other identities included.  The
  lock file of \<open>demoBridge\<close> holds a lock of \<open>s0\<close> that expired at 5000; after \<open>s1\<close>
  has acquired its lock at the time 6000, the expired lock of \<open>s0\<close> is still there.
\<close>

theorem acquireLock_leaves_expired_lock_of_other_session:
  "loadLocks demoBridge (asc ''s0'') = Some (demoLock (asc ''s0'') 5000) \<and>
   expiresAt (demoLock (asc ''s0'') 5000) < 6000 \<and>
   map_option expiresAt (fst (acquireLock demoEnv (atOnce 6000) (asc ''s1'') demoBridge))
     = Some 66000 \<and>
   loadLocks (snd (acquireLock demoEnv (atOnce 6000) (asc ''s1'') demoBridge)) (asc ''s0'')
     = Some (demoLock (asc ''s0'') 5000)"
  by code_simp

text \<open>
  C8, amended.  \<open>acquireLock\<close> purges nothing.  It changes no entry of the lock file
  but that of the identity it is called for: the lock of any other identity, expired or
  not, is after the call what it was before.  An expired lock of the identity itself
  does not block the call and is replaced by the new lock.
\<close>

theorem acquireLock_changes_own_entry_only:
  "(other \<noteq> name \<longrightarrow>
      loadLocks (snd (acquireLock env clock name b)) other = loadLocks b other) \<and>
   ((\<exists>l. loadLocks b name = Some l \<and> expiresAt l \<le> checkNow clock) \<longrightarrow>
      (\<exists>lock. fst (acquireLock env clock name b) = Some lock \<and>
         loadLocks (snd (acquireLock env clock name b)) name = Some lock \<and>
         expiresAt lock = expiryNow clock + TMUX_LOCK_TIMEOUT env))"
  by (cases "loadLocks b name")
     (auto simp: acquireLock_def Let_def saveLocks_def loadLocks_def assignKey_def)

theorem acquireLock_changes_own_entry_only_witness:
  "asc ''s0'' \<noteq> asc ''s1'' \<and>
   loadLocks demoBridge (asc ''s1'') = Some (demoLock (asc ''s1'') 5000) \<and>
   expiresAt (demoLock (asc ''s1'') 5000) \<le> 6000 \<and>
   loadLocks (snd (acquireLock demoEnv (atOnce 6000) (asc ''s1'') demoBridge)) (asc ''s0'')
     = loadLocks demoBridge (asc ''s0'') \<and>
   map_option expiresAt
     (loadLocks (snd (acquireLock demoEnv (atOnce 6000) (asc ''s1'') demoBridge)) (asc ''s1''))
     = Some 66000"
proof -
  have ne: "asc ''s0'' \<noteq> asc ''s1''" by code_simp
  have held: "loadLocks demoBridge (asc ''s1'') = Some (demoLock (asc ''s1'') 5000)"
    by code_simp
  have c: "checkNow (atOnce 6000) = 6000" "expiryNow (atOnce 6000) = 6000"
    by (simp_all add: atOnce_def)
  have past: "expiresAt (demoLock (asc ''s1'') 5000) \<le> 6000" by code_simp
  note inst = acquireLock_changes_own_entry_only
    [of "asc ''s0''" "asc ''s1''" demoEnv "atOnce 6000" demoBridge]
  have other: "loadLocks (snd (acquireLock demoEnv (atOnce 6000) (asc ''s1'') demoBridge))
      (asc ''s0'') = loadLocks demoBridge (asc ''s0'')" using inst ne by blast
  obtain lock where
    "loadLocks (snd (acquireLock demoEnv (atOnce 6000) (asc ''s1'') demoBridge)) (asc ''s1'')
       = Some lock"
    "expiresAt lock = expiryNow (atOnce 6000) + TMUX_LOCK_TIMEOUT demoEnv"
    using inst held past c by auto
  then have own: "map_option expiresAt
      (loadLocks (snd (acquireLock demoEnv (atOnce 6000) (asc ''s1'') demoBridge)) (asc ''s1''))
      = Some 66000"
    by (simp add: demoEnv_def c)
  from ne held past other own show ?thesis by blast
qed

subsection \<open>What the bridge types\<close>

text \<open>
  No command of a session operation, of a pane capture or of the key \<open>Enter\<close> types
  a text with the literal flag; so neither does what runs while \<open>sendMessage\<close> is
  suspended, nor its poll.
\<close>

lemma executeTmux_bridge:
  "snd (executeTmux env args b) = b\<lparr>tmuxLog := tmuxLog b @ [args]\<rparr>"
  by (simp add: executeTmux_def)

lemma typesNothing_refl: "typesNothing b b"
  by (simp add: typesNothing_def)

lemma typesNothing_trans: "typesNothing a b \<Longrightarrow> typesNothing b c \<Longrightarrow> typesNothing a c"
  by (auto simp: typesNothing_def)

lemma typesNothing_log: "tmuxLog b' = tmuxLog b \<Longrightarrow> typesNothing b b'"
  by (simp add: typesNothing_def)

lemma typesNothing_from: "tmuxLog a' = tmuxLog a \<Longrightarrow> typesNothing a' b \<Longrightarrow> typesNothing a b"
  by (simp add: typesNothing_def)

lemma typesNothing_to: "tmuxLog b' = tmuxLog b \<Longrightarrow> typesNothing a b \<Longrightarrow> typesNothing a b'"
  by (simp add: typesNothing_def)

lemma executeTmux_types:
  "literalText args = None \<Longrightarrow> typesNothing b (snd (executeTmux env args b))"
  by (simp add: executeTmux_bridge typesNothing_def)

lemma literalText_sendKeysArgs:
  "literalText (sendKeysArgs cs txt) = (if txt = asc ''Enter'' then None else Some txt)"
  by (simp add: literalText_def sendKeysArgs_def)

lemma literalText_other: "hd args \<noteq> asc ''send-keys'' \<Longrightarrow> literalText args = None"
  by (auto simp: literalText_def split: list.splits)

lemma capturePane_types: "typesNothing b (snd (capturePane env h b))"
  by (auto simp: capturePane_def Let_def typesNothing_refl asc_def
        intro!: executeTmux_types literalText_other split: option.splits)

lemma listSessions_types: "typesNothing b (snd (listSessions env now b))"
proof -
  have "typesNothing b
      (snd (executeTmux env [asc ''list-sessions'', asc ''-F'', listSessionsFormat] b))"
    by (rule executeTmux_types) (simp add: literalText_def)
  then show ?thesis by (simp add: listSessions_def Let_def split: option.splits)
qed

lemma saveSessionMetadata_log: "tmuxLog (saveSessionMetadata b) = tmuxLog b"
  by (simp add: saveSessionMetadata_def saveSessionMetadataRaw_def split: option.splits)

lemma historyLimit_types:
  "typesNothing b (snd (executeTmux env (historyLimitArgs b0 name) b))"
  by (rule executeTmux_types) (simp add: historyLimitArgs_def literalText_def asc_def)

lemma waitReady_types:
  "waitReady env startWait clock b = Some r \<Longrightarrow> typesNothing b (snd r)"
proof (induction clock arbitrary: b)
  case Nil
  then show ?case by simp
next
  case (Cons t ts)
  let ?c = "capturePane env None b"
  have c: "typesNothing b (snd ?c)" by (rule capturePane_types)
  show ?case
  proof (cases "t - startWait < 30000")
    case False
    then show ?thesis using Cons.prems by (auto simp: typesNothing_refl)
  next
    case True
    show ?thesis
    proof (cases "fst ?c")
      case (Inl e)
      then show ?thesis using Cons.prems True c by (auto simp: Let_def)
    next
      case (Inr pane)
      show ?thesis
      proof (cases "js_includes pane (promptGlyph env)")
        case True
        then show ?thesis using Cons.prems \<open>t - startWait < 30000\<close> Inr c by (auto simp: Let_def)
      next
        case False
        then have "waitReady env startWait ts (snd ?c) = Some r"
          using Cons.prems True Inr by (simp add: Let_def)
        from Cons.IH [OF this] c show ?thesis by (rule typesNothing_trans [rotated])
      qed
    qed
  qed
qed

lemma createSession_types:
  assumes run: "createSession env now startWait clock requested resume b = Some r"
  shows "typesNothing b (snd r)"
proof -
  define name where "name = newSessionName (config b) now requested"
  define args1 where "args1 = [asc ''new-session'', asc ''-d'', asc ''-s'', name, asc ''-c'',
                  configWorkingDir (config b), asc ''-x'', asc ''200'', asc ''-y'', asc ''50'',
                  claudePath (config b) @
            (case resume of None \<Rightarrow> [] | Some r \<Rightarrow> if r = [] then [] else asc '' --resume '' @ r)]"
  define r1 where "r1 = executeTmux env args1 b"
  define r2 where "r2 = executeTmux env (historyLimitArgs b name) (snd r1)"
  define created where "created = \<lparr> sessionName = name, windowId = asc ''0'', paneId = asc ''0'',
           workingDir = configWorkingDir (config b), isRunning = True,
           createdBy = telegram, isOwned = True, markedForExit = False,
           markedAt = None, lastActivity = now \<rparr>"
  define b3 where "b3 = saveSessionMetadata ((snd r2)\<lparr>currentSession := Some created\<rparr>)"
  have def: "createSession env now startWait clock requested resume b =
     (case fst r1 of
           None \<Rightarrow> Some (Inl TmuxFailed, snd r1)
         | Some _ \<Rightarrow>
              (case fst r2 of
                None \<Rightarrow> Some (Inl TmuxFailed, snd r2)
              | Some _ \<Rightarrow>
                  (case waitReady env startWait clock b3 of
                        None \<Rightarrow> None
                      | Some w \<Rightarrow>
                          (case fst w of
                             Inl e \<Rightarrow> Some (Inl e, snd w)
                           | Inr _ \<Rightarrow> Some (Inr (currentSession (snd w)), snd w)))))"
    unfolding createSession_def Let_def r1_def r2_def b3_def created_def args1_def name_def
    by (rule refl)
  have s1: "typesNothing b (snd r1)"
    unfolding r1_def by (rule executeTmux_types) (simp add: args1_def literalText_def)
  have s2: "typesNothing b (snd r2)"
    unfolding r2_def by (rule typesNothing_trans [OF s1 historyLimit_types])
  have s3: "typesNothing b b3"
    by (rule typesNothing_to [OF _ s2]) (simp add: b3_def saveSessionMetadata_log)
  show ?thesis
  proof (cases "fst r1")
    case None
    then have "snd r = snd r1" using run def by auto
    then show ?thesis using s1 by simp
  next
    case ok1: (Some o1)
    show ?thesis
    proof (cases "fst r2")
      case None
      then have "snd r = snd r2" using run def ok1 by auto
      then show ?thesis using s2 by simp
    next
      case ok2: (Some o2)
      show ?thesis
      proof (cases "waitReady env startWait clock b3")
        case None
        then show ?thesis using run def ok1 ok2 by simp
      next
        case (Some w)
        have "snd r = snd w"
        proof (cases "fst w")
          case (Inl e)
          then show ?thesis using run def ok1 ok2 Some by auto
        next
          case (Inr u)
          then show ?thesis using run def ok1 ok2 Some by auto
        qed
        then show ?thesis
          using typesNothing_trans [OF s3 waitReady_types [OF Some]] by simp
      qed
    qed
  qed
qed

lemma attachToSession_types:
  "typesNothing b (snd (attachToSession env listNow now name b))"
proof -
  let ?ls = "listSessions env listNow b"
  have s: "typesNothing b (snd ?ls)" by (rule listSessions_types)
  show ?thesis
  proof (cases "List.find (\<lambda>s. sessionName s = name) (fst ?ls)")
    case None
    then show ?thesis using s by (simp add: attachToSession_def Let_def)
  next
    case (Some found)
    let ?b1 = "(snd ?ls)\<lparr>currentSession := Some (found\<lparr>isOwned := True, lastActivity := now\<rparr>)\<rparr>"
    have "typesNothing ?b1 (snd (executeTmux env (historyLimitArgs ?b1 name) ?b1))"
      by (rule historyLimit_types)
    then have "typesNothing (snd ?ls) (snd (executeTmux env (historyLimitArgs ?b1 name) ?b1))"
      by (rule typesNothing_from [rotated]) simp
    then have "typesNothing (snd ?ls)
        (saveSessionMetadata (snd (executeTmux env (historyLimitArgs ?b1 name) ?b1)))"
      by (rule typesNothing_to [rotated]) (simp add: saveSessionMetadata_log)
    from typesNothing_trans [OF s this] show ?thesis
      using Some by (simp add: attachToSession_def Let_def)
  qed
qed

lemma markForExit_types: "typesNothing b (markForExit now b)"
  by (rule typesNothing_log)
     (simp add: markForExit_def Let_def saveSessionMetadata_log split: option.splits)

lemma killSession_types: "typesNothing b (killSession env name b)"
proof -
  let ?r = "executeTmux env [asc ''kill-session'', asc ''-t'', name] b"
  have s: "typesNothing b (snd ?r)"
    by (rule executeTmux_types) (simp add: literalText_def)
  show ?thesis
  proof (cases "fst ?r")
    case None
    then show ?thesis using s by (simp add: killSession_def Let_def)
  next
    case (Some out)
    have "tmuxLog (killSession env name b) = tmuxLog (snd ?r)"
      using Some
      by (simp add: killSession_def Let_def saveSessionMetadataRaw_def split: option.splits)
    from typesNothing_to [OF this s] show ?thesis .
  qed
qed

lemma cleanupSession_types: "typesNothing b (cleanupSession env listNow name b)"
proof -
  let ?ls = "listSessions env listNow b"
  let ?b1 = "case List.find (\<lambda>s. sessionName s = name) (fst ?ls) of
               None \<Rightarrow> snd ?ls
             | Some s \<Rightarrow> if markedForExit s then killSession env name (snd ?ls) else snd ?ls"
  have s: "typesNothing b (snd ?ls)" by (rule listSessions_types)
  have "typesNothing (snd ?ls) ?b1"
    by (simp add: typesNothing_refl killSession_types split: option.splits)
  from typesNothing_trans [OF s this] have "typesNothing b ?b1" .
  then have "typesNothing b (?b1\<lparr>cleanupTimers := cleanupTimers ?b1 - {name}\<rparr>)"
    by (rule typesNothing_to [rotated]) simp
  then show ?thesis by (simp add: cleanupSession_def Let_def)
qed

lemma applyOp_types: "applyOp env x b = Some b' \<Longrightarrow> typesNothing b b'"
proof (cases x)
  case (CreateSession now startWait clock requested resume)
  assume "applyOp env x b = Some b'"
  with CreateSession obtain r where
    "createSession env now startWait clock requested resume b = Some r" "b' = snd r" by auto
  then show ?thesis using createSession_types by simp
next
  case (AttachToSession listNow now name)
  assume "applyOp env x b = Some b'"
  with AttachToSession show ?thesis using attachToSession_types by auto
next
  case (MarkForExit now)
  assume "applyOp env x b = Some b'"
  with MarkForExit show ?thesis using markForExit_types by auto
next
  case (KillSession name)
  assume "applyOp env x b = Some b'"
  with KillSession show ?thesis using killSession_types by auto
next
  case (CleanupSession listNow name)
  assume "applyOp env x b = Some b'"
  with CleanupSession show ?thesis using cleanupSession_types by auto
qed

lemma runOps_types: "runOps env ops b = Some b' \<Longrightarrow> typesNothing b b'"
proof (induction ops arbitrary: b)
  case Nil
  then show ?case by (simp add: typesNothing_refl)
next
  case (Cons x xs)
  from Cons.prems obtain b1 where b1: "applyOp env x b = Some b1"
    and rest: "runOps env xs b1 = Some b'" by (auto split: option.splits)
  from typesNothing_trans [OF applyOp_types [OF b1] Cons.IH [OF rest]] show ?case .
qed

lemma awaitCallback_types:
  "awaitCallback env kind txt b = Some r \<Longrightarrow> typesNothing b (snd r)"
  by (auto simp: awaitCallback_def runOps_types split: option.splits)

lemma emitStatusCallback_types:
  "emitStatusCallback env blk b = Some r \<Longrightarrow> typesNothing b (snd r)"
  by (cases "btype blk")
     (auto simp: emitStatusCallback_def awaitCallback_types typesNothing_refl split: if_splits)

lemma emitBlocks_types:
  "emitBlocks env blks b = Some r \<Longrightarrow> typesNothing b (snd r)"
proof (induction blks arbitrary: b)
  case Nil
  then show ?case by (auto simp: typesNothing_refl)
next
  case (Cons blk blks)
  from Cons.prems obtain c where c: "emitStatusCallback env blk b = Some c"
    by (auto split: option.splits)
  note s = emitStatusCallback_types [OF c]
  show ?case
  proof (cases "fst c")
    case (Inl e)
    then have "snd r = snd c" using Cons.prems c by auto
    then show ?thesis using s by simp
  next
    case (Inr u)
    then have "emitBlocks env blks (snd c) = Some r" using Cons.prems c by simp
    from typesNothing_trans [OF s Cons.IH [OF this]] show ?thesis .
  qed
qed

lemma pollChanged_types:
  assumes run: "pollChanged env t anchor pane st b = Some r"
  shows "typesNothing b (snd (snd r))"
proof -
  define sliced where "sliced = sliceAfterAnchor anchor pane (st\<lparr>lastOutput := pane\<rparr>)"
  define newContent where "newContent = fst sliced"
  define st2 where "st2 = (snd sliced)\<lparr>pollParser := revokeIfComplete (pollParser (snd sliced))\<rparr>"
  define startsProcessing where
    "startsProcessing = (\<not> sawProcessing st2 \<and> js_includes newContent (processingGlyph env))"
  define st3 where "st3 = (if startsProcessing then st2\<lparr>sawProcessing := True\<rparr> else st2)"
  define st4 where "st4 = (if \<not> sawResponse st3 \<and> js_includes newContent (responseGlyph env)
                              then st3\<lparr>sawResponse := True, pollParser := reset (pollParser st3)\<rparr>
                              else st3)"
  define fed where "fed = feed (feedNow t) newContent (pollParser st4)"
  define st5 where "st5 = st4\<lparr>pollParser := fst fed\<rparr>"
  define first where "first = (if startsProcessing
               then awaitCallback env (asc ''thinking'') (asc ''Processing...'') b
               else Some (Inr (), b))"
  have def: "pollChanged env t anchor pane st b =
     (case first of
           None \<Rightarrow> None
         | Some c1 \<Rightarrow>
             (case fst c1 of
                Inl e \<Rightarrow> Some (Inl e, st3, snd c1)
              | Inr _ \<Rightarrow>
                  (if sawProcessing st4 \<or> sawResponse st4 then
                        (case emitBlocks env (snd fed) (snd c1) of
                              None \<Rightarrow> None
                            | Some c2 \<Rightarrow>
                                (case fst c2 of
                                   Inl e \<Rightarrow> Some (Inl e, st5, snd c2)
                                 | Inr _ \<Rightarrow>
                                     if sawResponse st5 \<and> isComplete (doneNow t) (fst fed) then
                                       (case awaitCallback env (asc ''done'') []
                                               ((snd c2)\<lparr>lastKnownPaneContent := pane\<rparr>) of
                                             None \<Rightarrow> None
                                           | Some c3 \<Rightarrow>
                                               (case fst c3 of
                                                  Inl e \<Rightarrow>
                                                    Some (Inl e,
                                                      st5\<lparr>pollParser := snd (getTextResponse (fst fed))\<rparr>,
                                                      snd c3)
                                                | Inr _ \<Rightarrow>
                                                    Some (Inr (Some (fst (getTextResponse (fst fed)))),
                                                      st5\<lparr>pollParser := snd (getTextResponse (fst fed))\<rparr>,
                                                      snd c3)))
                                     else Some (Inr None, st5, snd c2)))
                      else Some (Inr None, st4, snd c1))))"
    unfolding pollChanged_def Let_def first_def st5_def fed_def st4_def st3_def
      startsProcessing_def st2_def newContent_def sliced_def
    by (rule refl)
  from run def obtain c1 where c1: "first = Some c1" by (auto split: option.splits)
  have s1: "typesNothing b (snd c1)"
    using c1 by (auto simp: first_def awaitCallback_types typesNothing_refl split: if_splits)
  show ?thesis
  proof (cases "fst c1")
    case (Inl e)
    then have "snd (snd r) = snd c1" using run def c1 by auto
    then show ?thesis using s1 by simp
  next
    case i1: (Inr u)
    show ?thesis
    proof (cases "sawProcessing st4 \<or> sawResponse st4")
      case False
      then have "snd (snd r) = snd c1" using run def c1 i1 by auto
      then show ?thesis using s1 by simp
    next
      case True
      with run def c1 i1 obtain c2 where c2: "emitBlocks env (snd fed) (snd c1) = Some c2"
        by (auto split: option.splits)
      have s2: "typesNothing b (snd c2)"
        by (rule typesNothing_trans [OF s1 emitBlocks_types [OF c2]])
      show ?thesis
      proof (cases "fst c2")
        case (Inl e)
        then have "snd (snd r) = snd c2" using run def c1 i1 True c2 by auto
        then show ?thesis using s2 by simp
      next
        case i2: (Inr u2)
        show ?thesis
        proof (cases "sawResponse st5 \<and> isComplete (doneNow t) (fst fed)")
          case False
          then have "snd (snd r) = snd c2" using run def c1 i1 True c2 i2 by auto
          then show ?thesis using s2 by simp
        next
          case finished: True
          with run def c1 i1 True c2 i2 obtain c3 where
            c3: "awaitCallback env (asc ''done'') []
                   ((snd c2)\<lparr>lastKnownPaneContent := pane\<rparr>) = Some c3"
            by (auto split: option.splits)
          have "typesNothing ((snd c2)\<lparr>lastKnownPaneContent := pane\<rparr>) (snd c3)"
            by (rule awaitCallback_types [OF c3])
          then have "typesNothing (snd c2) (snd c3)"
            by (rule typesNothing_from [rotated]) simp
          from typesNothing_trans [OF s2 this] have s3: "typesNothing b (snd c3)" .
          have "snd (snd r) = snd c3"
            using run def c1 i1 True c2 i2 finished c3 by (cases "fst c3") auto
          then show ?thesis using s3 by simp
        qed
      qed
    qed
  qed
qed

lemma pollLoop_types:
  "pollLoop env anchor start ticks st b = Some r \<Longrightarrow> typesNothing b (snd r)"
proof (induction ticks arbitrary: st b)
  case Nil
  then show ?case by simp
next
  case (Cons t ts)
  let ?c = "capturePane env None b"
  have c: "typesNothing b (snd ?c)" by (rule capturePane_types)
  show ?case
  proof (cases "tickNow t - start > maxPollTimeMs (config b) \<or> tickAborted t")
    case True
    then have "snd r = b" using Cons.prems by (auto split: if_splits)
    then show ?thesis by (simp add: typesNothing_refl)
  next
    case False
    with Cons.prems obtain b1 where b1: "runOps env (whileCapturing t) (snd ?c) = Some b1"
      by (auto simp: Let_def split: option.splits)
    have s1: "typesNothing b b1" by (rule typesNothing_trans [OF c runOps_types [OF b1]])
    show ?thesis
    proof (cases "fst ?c")
      case (Inl e)
      then have "snd r = b1" using Cons.prems False b1 by (auto simp: Let_def)
      then show ?thesis using s1 by simp
    next
      case (Inr pane)
      let ?round = "if pane \<noteq> lastOutput st then pollChanged env t anchor pane st b1
                    else Some (Inr None, st, b1)"
      from Cons.prems False b1 Inr obtain p where p: "?round = Some p"
        by (auto simp: Let_def split: option.splits)
      have s2: "typesNothing b (snd (snd p))"
      proof (cases "pane \<noteq> lastOutput st")
        case True
        with p have "pollChanged env t anchor pane st b1 = Some p" by simp
        from typesNothing_trans [OF s1 pollChanged_types [OF this]] show ?thesis .
      next
        case False
        with p have "snd (snd p) = b1" by auto
        then show ?thesis using s1 by simp
      qed
      have step: "pollLoop env anchor start (t # ts) st b =
          (case fst p of
             Inl e \<Rightarrow> Some (Inl e, snd (snd p))
           | Inr (Some response) \<Rightarrow> Some (Inr response, snd (snd p))
           | Inr None \<Rightarrow>
               (case runOps env (whileSleeping t) (snd (snd p)) of
                  None \<Rightarrow> None
                | Some b2 \<Rightarrow> pollLoop env anchor start ts (fst (snd p)) b2))"
        using False b1 Inr p by (simp add: Let_def)
      show ?thesis
      proof (cases "fst p")
        case (Inl e)
        then have "snd r = snd (snd p)" using Cons.prems step by auto
        then show ?thesis using s2 by simp
      next
        case inr: (Inr res)
        show ?thesis
        proof (cases res)
          case (Some response)
          then have "snd r = snd (snd p)" using Cons.prems step inr by auto
          then show ?thesis using s2 by simp
        next
          case None
          with Cons.prems step inr obtain b2 where
            b2: "runOps env (whileSleeping t) (snd (snd p)) = Some b2"
            and rest: "pollLoop env anchor start ts (fst (snd p)) b2 = Some r"
            by (auto split: option.splits)
          from typesNothing_trans [OF s2 runOps_types [OF b2]] have "typesNothing b b2" .
          from typesNothing_trans [OF this Cons.IH [OF rest]] show ?thesis .
        qed
      qed
    qed
  qed
qed

lemma pollForResponse_types:
  assumes "pollForResponse env startNow ticks p sent b = Some r"
  shows "typesNothing b (snd r)"
proof -
  from assms obtain r0 where
    r0: "pollLoop env (case sent of None \<Rightarrow> None | Some m \<Rightarrow> if m = [] then None else Some m)
           startNow ticks
           \<lparr> lastOutput = [], sawProcessing = False, sawResponse = False,
              lastSlicedContent = [], pollParser = p \<rparr> (b\<lparr>polling := True\<rparr>) = Some r0"
    and r: "r = (fst r0, (snd r0)\<lparr>polling := False\<rparr>)"
    by (auto simp: pollForResponse_def Let_def split: option.splits)
  from pollLoop_types [OF r0] show ?thesis by (simp add: r typesNothing_def)
qed

lemma sendKeys_bridge:
  "snd (sendKeys env txt b) =
     (case currentSession b of None \<Rightarrow> b
      | Some cs \<Rightarrow> b\<lparr>tmuxLog := tmuxLog b @ [sendKeysArgs cs txt]\<rparr>)"
  by (simp add: sendKeys_def Let_def executeTmux_bridge split: option.splits)

lemma sendKeys_Enter_types: "typesNothing b (snd (sendKeys env (asc ''Enter'') b))"
  by (simp add: sendKeys_bridge typesNothing_def literalText_sendKeysArgs split: option.splits)

text \<open>What the \<open>try\<close> block of \<open>sendMessage\<close> adds to the log of a bridge that has a
  current session, whenever it ends and whatever other handlers run meanwhile: the
  command that types the message, then commands that type nothing.\<close>

lemma sendMessageBody_log:
  assumes run: "sendMessageBody env activityNow startNow aw ticks message b = Some r"
    and cur: "currentSession b = Some cs"
  shows "\<exists>rest. tmuxLog (snd r) = tmuxLog b @ sendKeysArgs cs message # rest \<and>
            list_all (\<lambda>a. literalText a = None) rest"
proof -
  let ?k1 = "sendKeys env message b"
  have k1: "tmuxLog (snd ?k1) = tmuxLog b @ [sendKeysArgs cs message]"
    using cur by (simp add: sendKeys_bridge)
  have "typesNothing (snd ?k1) (snd r)"
  proof -
    from run obtain b1 where b1: "runOps env (whileTyping aw) (snd ?k1) = Some b1"
      by (auto simp: sendMessageBody_def Let_def split: option.splits)
    have s1: "typesNothing (snd ?k1) b1" by (rule runOps_types [OF b1])
    show ?thesis
    proof (cases "fst ?k1")
      case (Inl e)
      then have "snd r = b1" using run b1 by (auto simp: sendMessageBody_def Let_def)
      then show ?thesis using s1 by simp
    next
      case i1: (Inr u)
      let ?k2 = "sendKeys env (asc ''Enter'') b1"
      from run b1 i1 obtain b2 where b2: "runOps env (whileEntering aw) (snd ?k2) = Some b2"
        by (auto simp: sendMessageBody_def Let_def split: option.splits)
      have "typesNothing b1 b2"
        by (rule typesNothing_trans [OF sendKeys_Enter_types runOps_types [OF b2]])
      from typesNothing_trans [OF s1 this] have s2: "typesNothing (snd ?k1) b2" .
      show ?thesis
      proof (cases "fst ?k2")
        case (Inl e)
        then have "snd r = b2" using run b1 i1 b2 by (auto simp: sendMessageBody_def Let_def)
        then show ?thesis using s2 by simp
      next
        case i2: (Inr u2)
        show ?thesis
        proof (cases "currentSession b2")
          case None
          then have "snd r = b2"
            using run b1 i1 b2 i2 by (auto simp: sendMessageBody_def Let_def)
          then show ?thesis using s2 by simp
        next
          case (Some cs2)
          let ?saved = "saveSessionMetadata
                          (b2\<lparr>currentSession := Some (cs2\<lparr>lastActivity := activityNow\<rparr>)\<rparr>)"
          from run b1 i1 b2 i2 Some obtain b3 where
            b3: "runOps env (whileStarting aw) ?saved = Some b3"
            and poll: "pollForResponse env startNow ticks newParser (Some message) b3 = Some r"
            by (auto simp: sendMessageBody_def Let_def split: option.splits)
          have "typesNothing b2 ?saved"
            by (rule typesNothing_log) (simp add: saveSessionMetadata_log)
          from typesNothing_trans [OF this runOps_types [OF b3]] have "typesNothing b2 b3" .
          from typesNothing_trans [OF this pollForResponse_types [OF poll]]
          have "typesNothing b2 (snd r)" .
          from typesNothing_trans [OF s2 this] show ?thesis .
        qed
      qed
    qed
  qed
  then show ?thesis using k1 by (auto simp: typesNothing_def)
qed

lemma acquireLock_step:
  "currentSession (snd (acquireLock env clock name b)) = currentSession b \<and>
   tmuxLog (snd (acquireLock env clock name b)) = tmuxLog b"
  by (simp add: acquireLock_def Let_def saveLocks_def)

text \<open>
  C10.  The first command \<open>sendMessage\<close> runs types the message: with the literal flag
  \<open>-l\<close> for every message but \<open>"Enter"\<close>, and as the key \<open>Enter\<close>, not as text,
  for the message \<open>"Enter"\<close>.  No later command run during the call, by itself or by
  the session operations of other handlers, types a text literally, so the text
  \<open>Enter\<close> is never what \<open>sendMessage\<close> delivers.
\<close>

theorem sendMessage_types_literally_unless_Enter:
  assumes cur: "currentSession b = Some cs"
    and acquired: "fst (acquireLock env clock (sessionName cs) b) \<noteq> None"
    and exit: "sendMessage env clock activityNow startNow aw ticks message b = Some r"
  shows "\<exists>rest. tmuxLog (snd r) =
           tmuxLog b @
             (if message = asc ''Enter''
              then [asc ''send-keys'', asc ''-t'', paneTarget cs, asc ''Enter'']
              else [asc ''send-keys'', asc ''-t'', paneTarget cs, asc ''-l'', message]) # rest \<and>
           (\<forall>args \<in> set rest. literalText args = None)"
proof -
  let ?a = "acquireLock env clock (sessionName cs) b"
  from acquired exit cur obtain r0 where
    body: "sendMessageBody env activityNow startNow aw ticks message (snd ?a) = Some r0"
    and r: "r = finallyRelease r0"
    by (auto simp: sendMessage_def Let_def split: option.splits)
  have a: "currentSession (snd ?a) = Some cs" "tmuxLog (snd ?a) = tmuxLog b"
    using cur acquireLock_step by simp_all
  from sendMessageBody_log [OF body a(1)] obtain rest where
    log: "tmuxLog (snd r0) = tmuxLog b @ sendKeysArgs cs message # rest"
    and rest: "list_all (\<lambda>a. literalText a = None) rest"
    using a(2) by auto
  have same: "tmuxLog (snd r) = tmuxLog (snd r0)"
    by (simp add: r finallyRelease_def releaseLock_def saveLocks_def split: option.splits)
  have "\<forall>args \<in> set rest. literalText args = None"
    using rest by (auto simp: list_all_iff)
  then show ?thesis using log same by (auto simp: sendKeysArgs_def)
qed

theorem sendMessage_types_literally_unless_Enter_witness:
  "currentSession demoBridge = Some demoSession \<and>
   fst (acquireLock demoEnv (atOnce 6000) (sessionName demoSession) demoBridge) \<noteq> None \<and>
   (case sendMessage demoEnv (atOnce 6000) 6001 6500 undisturbed [demoTick] (asc ''Enter'')
           demoBridge of
      None \<Rightarrow> False
    | Some r \<Rightarrow> hd (tmuxLog (snd r))
                  = [asc ''send-keys'', asc ''-t'', asc ''s1:0.0'', asc ''Enter'']) \<and>
   (case sendMessage demoEnv (atOnce 6000) 6001 6500 undisturbed [demoTick] (asc ''hi'')
           demoBridge of
      None \<Rightarrow> False
    | Some r \<Rightarrow> hd (tmuxLog (snd r))
                  = [asc ''send-keys'', asc ''-t'', asc ''s1:0.0'', asc ''-l'', asc ''hi''])"
proof -
  have cur: "currentSession demoBridge = Some demoSession" by code_simp
  have acq: "fst (acquireLock demoEnv (atOnce 6000) (sessionName demoSession) demoBridge) \<noteq> None"
    by code_simp
  have target: "paneTarget demoSession = asc ''s1:0.0''" by code_simp
  have log: "tmuxLog demoBridge = []" by code_simp
  have ne: "asc ''hi'' \<noteq> asc ''Enter''" by code_simp
  have "sendMessage demoEnv (atOnce 6000) 6001 6500 undisturbed [demoTick] (asc ''Enter'')
          demoBridge \<noteq> None"
    by code_simp
  then obtain r1 where r1:
    "sendMessage demoEnv (atOnce 6000) 6001 6500 undisturbed [demoTick] (asc ''Enter'')
       demoBridge = Some r1"
    by blast
  from sendMessage_types_literally_unless_Enter [OF cur acq r1]
  have h1: "hd (tmuxLog (snd r1)) = [asc ''send-keys'', asc ''-t'', asc ''s1:0.0'', asc ''Enter'']"
    by (auto simp: target log)
  have "sendMessage demoEnv (atOnce 6000) 6001 6500 undisturbed [demoTick] (asc ''hi'')
          demoBridge \<noteq> None"
    by code_simp
  then obtain r2 where r2:
    "sendMessage demoEnv (atOnce 6000) 6001 6500 undisturbed [demoTick] (asc ''hi'')
       demoBridge = Some r2"
    by blast
  from sendMessage_types_literally_unless_Enter [OF cur acq r2]
  have h2: "hd (tmuxLog (snd r2))
              = [asc ''send-keys'', asc ''-t'', asc ''s1:0.0'', asc ''-l'', asc ''hi'']"
    using ne by (auto simp: target log)
  show ?thesis using cur acq r1 h1 r2 h2 by simp
qed

subsection \<open>The lock of a message\<close>

lemma keepsSession_refl: "keepsSession b b"
  by (simp add: keepsSession_def)

lemma keepsSession_trans: "keepsSession a b \<Longrightarrow> keepsSession b c \<Longrightarrow> keepsSession a c"
  by (simp add: keepsSession_def)

lemma capturePane_session: "keepsSession b (snd (capturePane env h b))"
  by (simp add: capturePane_def Let_def executeTmux_bridge keepsSession_def split: option.splits)

lemma awaitCallback_session:
  "quietCallbacks env \<Longrightarrow> awaitCallback env kind txt b = Some r \<Longrightarrow> keepsSession b (snd r)"
  by (auto simp: awaitCallback_def quietCallbacks_def keepsSession_def)

lemma emitStatusCallback_session:
  "quietCallbacks env \<Longrightarrow> emitStatusCallback env blk b = Some r \<Longrightarrow> keepsSession b (snd r)"
  by (cases "btype blk")
     (auto simp: emitStatusCallback_def awaitCallback_session keepsSession_refl split: if_splits)

lemma emitBlocks_session:
  "quietCallbacks env \<Longrightarrow> emitBlocks env blks b = Some r \<Longrightarrow> keepsSession b (snd r)"
proof (induction blks arbitrary: b)
  case Nil
  then show ?case by (auto simp: keepsSession_refl)
next
  case (Cons blk blks)
  from Cons.prems obtain c where c: "emitStatusCallback env blk b = Some c"
    by (auto split: option.splits)
  note s = emitStatusCallback_session [OF Cons.prems(1) c]
  show ?case
  proof (cases "fst c")
    case (Inl e)
    then have "snd r = snd c" using Cons.prems c by auto
    then show ?thesis using s by simp
  next
    case (Inr u)
    then have "emitBlocks env blks (snd c) = Some r" using Cons.prems c by simp
    from keepsSession_trans [OF s Cons.IH [OF Cons.prems(1) this]] show ?thesis .
  qed
qed

lemma pollChanged_session:
  assumes quiet: "quietCallbacks env"
    and run: "pollChanged env t anchor pane st b = Some r"
  shows "keepsSession b (snd (snd r))"
proof -
  define sliced where "sliced = sliceAfterAnchor anchor pane (st\<lparr>lastOutput := pane\<rparr>)"
  define newContent where "newContent = fst sliced"
  define st2 where "st2 = (snd sliced)\<lparr>pollParser := revokeIfComplete (pollParser (snd sliced))\<rparr>"
  define startsProcessing where
    "startsProcessing = (\<not> sawProcessing st2 \<and> js_includes newContent (processingGlyph env))"
  define st3 where "st3 = (if startsProcessing then st2\<lparr>sawProcessing := True\<rparr> else st2)"
  define st4 where "st4 = (if \<not> sawResponse st3 \<and> js_includes newContent (responseGlyph env)
                              then st3\<lparr>sawResponse := True, pollParser := reset (pollParser st3)\<rparr>
                              else st3)"
  define fed where "fed = feed (feedNow t) newContent (pollParser st4)"
  define st5 where "st5 = st4\<lparr>pollParser := fst fed\<rparr>"
  define first where "first = (if startsProcessing
               then awaitCallback env (asc ''thinking'') (asc ''Processing...'') b
               else Some (Inr (), b))"
  have def: "pollChanged env t anchor pane st b =
     (case first of
           None \<Rightarrow> None
         | Some c1 \<Rightarrow>
             (case fst c1 of
                Inl e \<Rightarrow> Some (Inl e, st3, snd c1)
              | Inr _ \<Rightarrow>
                  (if sawProcessing st4 \<or> sawResponse st4 then
                        (case emitBlocks env (snd fed) (snd c1) of
                              None \<Rightarrow> None
                            | Some c2 \<Rightarrow>
                                (case fst c2 of
                                   Inl e \<Rightarrow> Some (Inl e, st5, snd c2)
                                 | Inr _ \<Rightarrow>
                                     if sawResponse st5 \<and> isComplete (doneNow t) (fst fed) then
                                       (case awaitCallback env (asc ''done'') []
                                               ((snd c2)\<lparr>lastKnownPaneContent := pane\<rparr>) of
                                             None \<Rightarrow> None
                                           | Some c3 \<Rightarrow>
                                               (case fst c3 of
                                                  Inl e \<Rightarrow>
                                                    Some (Inl e,
                                                      st5\<lparr>pollParser := snd (getTextResponse (fst fed))\<rparr>,
                                                      snd c3)
                                                | Inr _ \<Rightarrow>
                                                    Some (Inr (Some (fst (getTextResponse (fst fed)))),
                                                      st5\<lparr>pollParser := snd (getTextResponse (fst fed))\<rparr>,
                                                      snd c3)))
                                     else Some (Inr None, st5, snd c2)))
                      else Some (Inr None, st4, snd c1))))"
    unfolding pollChanged_def Let_def first_def st5_def fed_def st4_def st3_def
      startsProcessing_def st2_def newContent_def sliced_def
    by (rule refl)
  from run def obtain c1 where c1: "first = Some c1" by (auto split: option.splits)
  have s1: "keepsSession b (snd c1)"
    using c1 quiet
    by (auto simp: first_def awaitCallback_session keepsSession_refl split: if_splits)
  show ?thesis
  proof (cases "fst c1")
    case (Inl e)
    then have "snd (snd r) = snd c1" using run def c1 by auto
    then show ?thesis using s1 by simp
  next
    case i1: (Inr u)
    show ?thesis
    proof (cases "sawProcessing st4 \<or> sawResponse st4")
      case False
      then have "snd (snd r) = snd c1" using run def c1 i1 by auto
      then show ?thesis using s1 by simp
    next
      case True
      with run def c1 i1 obtain c2 where c2: "emitBlocks env (snd fed) (snd c1) = Some c2"
        by (auto split: option.splits)
      have s2: "keepsSession b (snd c2)"
        by (rule keepsSession_trans [OF s1 emitBlocks_session [OF quiet c2]])
      show ?thesis
      proof (cases "fst c2")
        case (Inl e)
        then have "snd (snd r) = snd c2" using run def c1 i1 True c2 by auto
        then show ?thesis using s2 by simp
      next
        case i2: (Inr u2)
        show ?thesis
        proof (cases "sawResponse st5 \<and> isComplete (doneNow t) (fst fed)")
          case False
          then have "snd (snd r) = snd c2" using run def c1 i1 True c2 i2 by auto
          then show ?thesis using s2 by simp
        next
          case finished: True
          with run def c1 i1 True c2 i2 obtain c3 where
            c3: "awaitCallback env (asc ''done'') []
                   ((snd c2)\<lparr>lastKnownPaneContent := pane\<rparr>) = Some c3"
            by (auto split: option.splits)
          have "keepsSession ((snd c2)\<lparr>lastKnownPaneContent := pane\<rparr>) (snd c3)"
            by (rule awaitCallback_session [OF quiet c3])
          then have s3: "keepsSession b (snd c3)" using s2 by (simp add: keepsSession_def)
          have "snd (snd r) = snd c3"
            using run def c1 i1 True c2 i2 finished c3 by (cases "fst c3") auto
          then show ?thesis using s3 by simp
        qed
      qed
    qed
  qed
qed

lemma pollLoop_session:
  assumes quiet: "quietCallbacks env"
  shows "list_all quietTick ticks \<Longrightarrow> pollLoop env anchor start ticks st b = Some r
           \<Longrightarrow> keepsSession b (snd r)"
proof (induction ticks arbitrary: st b)
  case Nil
  then show ?case by simp
next
  case (Cons t ts)
  from Cons.prems(1) have "quietTick t" and ts: "list_all quietTick ts" by simp_all
  then have t: "whileCapturing t = []" "whileSleeping t = []" by (simp_all add: quietTick_def)
  note run = Cons.prems(2)
  let ?c = "capturePane env None b"
  have c: "keepsSession b (snd ?c)" by (rule capturePane_session)
  show ?case
  proof (cases "tickNow t - start > maxPollTimeMs (config b) \<or> tickAborted t")
    case True
    then have "snd r = b" using run by (auto split: if_splits)
    then show ?thesis by (simp add: keepsSession_refl)
  next
    case False
    show ?thesis
    proof (cases "fst ?c")
      case (Inl e)
      then have "snd r = snd ?c" using run False t by (auto simp: Let_def)
      then show ?thesis using c by simp
    next
      case (Inr pane)
      let ?round = "if pane \<noteq> lastOutput st then pollChanged env t anchor pane st (snd ?c)
                    else Some (Inr None, st, snd ?c)"
      from run False t Inr obtain p where p: "?round = Some p"
        by (auto simp: Let_def split: option.splits)
      have s2: "keepsSession b (snd (snd p))"
      proof (cases "pane \<noteq> lastOutput st")
        case True
        with p have "pollChanged env t anchor pane st (snd ?c) = Some p" by simp
        from keepsSession_trans [OF c pollChanged_session [OF quiet this]] show ?thesis .
      next
        case False
        with p have "snd (snd p) = snd ?c" by auto
        then show ?thesis using c by simp
      qed
      have step: "pollLoop env anchor start (t # ts) st b =
          (case fst p of
             Inl e \<Rightarrow> Some (Inl e, snd (snd p))
           | Inr (Some response) \<Rightarrow> Some (Inr response, snd (snd p))
           | Inr None \<Rightarrow> pollLoop env anchor start ts (fst (snd p)) (snd (snd p)))"
        using False t Inr p by (simp add: Let_def split: sum.splits option.splits)
      show ?thesis
      proof (cases "fst p")
        case (Inl e)
        then have "snd r = snd (snd p)" using run step by auto
        then show ?thesis using s2 by simp
      next
        case inr: (Inr res)
        show ?thesis
        proof (cases res)
          case (Some response)
          then have "snd r = snd (snd p)" using run step inr by auto
          then show ?thesis using s2 by simp
        next
          case None
          then have "pollLoop env anchor start ts (fst (snd p)) (snd (snd p)) = Some r"
            using run step inr by simp
          from keepsSession_trans [OF s2 Cons.IH [OF ts this]] show ?thesis .
        qed
      qed
    qed
  qed
qed

lemma pollForResponse_session:
  assumes "quietCallbacks env" "list_all quietTick ticks"
    and "pollForResponse env startNow ticks p sent b = Some r"
  shows "keepsSession b (snd r)"
proof -
  from assms(3) obtain r0 where
    r0: "pollLoop env (case sent of None \<Rightarrow> None | Some m \<Rightarrow> if m = [] then None else Some m)
           startNow ticks
           \<lparr> lastOutput = [], sawProcessing = False, sawResponse = False,
              lastSlicedContent = [], pollParser = p \<rparr> (b\<lparr>polling := True\<rparr>) = Some r0"
    and r: "r = (fst r0, (snd r0)\<lparr>polling := False\<rparr>)"
    by (auto simp: pollForResponse_def Let_def split: option.splits)
  from pollLoop_session [OF assms(1,2) r0] show ?thesis by (simp add: r keepsSession_def)
qed

lemma saveSessionMetadata_session:
  "currentSession (saveSessionMetadata b) = currentSession b"
  by (simp add: saveSessionMetadata_def saveSessionMetadataRaw_def split: option.splits)

text \<open>A \<open>sendMessage\<close> during which no other handler runs a session operation leaves
  the lock file without a lock of the session, however it ends.\<close>

lemma sendMessage_alone_releases_lock:
  assumes cur: "currentSession b = Some cs"
    and acquired: "fst (acquireLock env clock (sessionName cs) b) \<noteq> None"
    and alone: "quietAwaits aw" "list_all quietTick ticks" "quietCallbacks env"
    and exit: "sendMessage env clock activityNow startNow aw ticks message b = Some r"
  shows "loadLocks (snd r) (sessionName cs) = None"
proof -
  let ?a = "acquireLock env clock (sessionName cs) b"
  from acquired exit cur obtain r0 where
    body: "sendMessageBody env activityNow startNow aw ticks message (snd ?a) = Some r0"
    and r: "r = finallyRelease r0"
    by (auto simp: sendMessage_def Let_def split: option.splits)
  have a: "currentSession (snd ?a) = Some cs" using cur acquireLock_step by simp
  have aw: "whileTyping aw = []" "whileEntering aw = []" "whileStarting aw = []"
    using alone(1) by (simp_all add: quietAwaits_def)
  let ?b1 = "snd (sendKeys env message (snd ?a))"
  let ?b2 = "snd (sendKeys env (asc ''Enter'') ?b1)"
  let ?b3 = "saveSessionMetadata (?b2\<lparr>currentSession := Some (cs\<lparr>lastActivity := activityNow\<rparr>)\<rparr>)"
  have c1: "currentSession ?b1 = Some cs" using a by (simp add: sendKeys_bridge)
  have c2: "currentSession ?b2 = Some cs" using c1 by (simp add: sendKeys_bridge)
  have c3: "currentSession ?b3 = Some (cs\<lparr>lastActivity := activityNow\<rparr>)"
    by (simp add: saveSessionMetadata_session)
  have "\<exists>cs'. currentSession (snd r0) = Some cs' \<and> sessionName cs' = sessionName cs"
  proof (cases "fst (sendKeys env message (snd ?a))")
    case (Inl e)
    then have "snd r0 = ?b1" using body aw by (auto simp: sendMessageBody_def Let_def)
    then show ?thesis using c1 by simp
  next
    case i1: (Inr u)
    show ?thesis
    proof (cases "fst (sendKeys env (asc ''Enter'') ?b1)")
      case (Inl e)
      then have "snd r0 = ?b2" using body aw i1 by (auto simp: sendMessageBody_def Let_def)
      then show ?thesis using c2 by simp
    next
      case i2: (Inr u2)
      have "pollForResponse env startNow ticks newParser (Some message) ?b3 = Some r0"
        using body aw i1 i2 c2 by (simp add: sendMessageBody_def Let_def)
      from pollForResponse_session [OF alone(3,2) this] c3 show ?thesis
        by (simp add: keepsSession_def)
    qed
  qed
  then show ?thesis
    by (auto simp: r finallyRelease_def releaseLock_def saveLocks_def loadLocks_def)
qed

text \<open>
  C6 does not hold of the code.  The \<open>finally\<close> block of \<open>sendMessage\<close> reads
  \<open>this.currentSession\<close> again to name the lock it releases, and other handlers can
  change the current session while \<open>sendMessage\<close> is suspended.  On \<open>demoBridge\<close>,
  attached to \<open>s1\<close>, the message \<open>hi\<close> is sent at the time 6000 and the lock of
  \<open>s1\<close> acquired, expiring at 66000.

  \<^item> Claude is still at work after the first round of the poll.  During the sleep that
    follows, the handler of \<open>/new\<close> stops the response and releases the session
    (\<open>markForExit\<close>).  The next round throws the cancellation; the \<open>finally\<close> block
    then dereferences the null session and throws in its turn, and the lock of \<open>s1\<close>
    stays in the lock file.
  \<^item> The same cancellation with no \<open>markForExit\<close> before it releases the lock.
  \<^item> The response \<open>hello\<close> is complete, and the session is released while the callback
    \<open>done\<close> is awaited: the call throws instead of returning the response, and the
    lock stays.
  \<^item> Another session, \<open>work\<close>, is attached while the pane capture is awaited: the
    call returns the response and releases the lock of \<open>work\<close>, which there was
    none of; the lock of \<open>s1\<close> stays.
\<close>

theorem sendMessage_leaves_lock_when_session_changes:
  "currentSession demoBridge = Some demoSession \<and>
   map_option expiresAt
     (fst (acquireLock busyEnv (atOnce 6000) (sessionName demoSession) demoBridge)) = Some 66000 \<and>
   (case sendMessage busyEnv (atOnce 6000) 6001 6500 undisturbed [releasedTick, stoppedTick]
           (asc ''hi'') demoBridge of
      None \<Rightarrow> False
    | Some r \<Rightarrow> fst r = Inl NullSession \<and> currentSession (snd r) = None \<and>
                map_option expiresAt (loadLocks (snd r) (asc ''s1'')) = Some 66000) \<and>
   (case sendMessage busyEnv (atOnce 6000) 6001 6500 undisturbed
           [releasedTick\<lparr>whileSleeping := []\<rparr>, stoppedTick] (asc ''hi'') demoBridge of
      None \<Rightarrow> False
    | Some r \<Rightarrow> fst r = Inl ResponseCancelled \<and> loadLocks (snd r) (asc ''s1'') = None) \<and>
   (case sendMessage releasingEnv (atOnce 6000) 6001 6500 undisturbed [demoTick]
           (asc ''hi'') demoBridge of
      None \<Rightarrow> False
    | Some r \<Rightarrow> fst r = Inl NullSession \<and>
                map_option expiresAt (loadLocks (snd r) (asc ''s1'')) = Some 66000) \<and>
   (case sendMessage sessionsEnv (atOnce 6000) 6001 6500 undisturbed
           [demoTick\<lparr>whileCapturing := [AttachToSession 6650 6651 (asc ''work'')]\<rparr>]
           (asc ''hi'') demoBridge of
      None \<Rightarrow> False
    | Some r \<Rightarrow> fst r = Inr (asc ''hello'') \<and>
                map_option sessionName (currentSession (snd r)) = Some (asc ''work'') \<and>
                map_option expiresAt (loadLocks (snd r) (asc ''s1'')) = Some 66000)"
  by code_simp

subsection \<open>Session ownership\<close>

lemma ownedIsCurrent_atMostOne:
  assumes "ownedIsCurrent b"
  shows "atMostOneOwned b"
  unfolding atMostOneOwned_def
proof (intro allI impI)
  fix n1 n2 assume a: "ownedBy b n1 \<and> ownedBy b n2"
  from a assms obtain c1 where c1: "currentSession b = Some c1" "sessionName c1 = n1"
    by (auto simp: ownedIsCurrent_def)
  from a assms obtain c2 where c2: "currentSession b = Some c2" "sessionName c2 = n2"
    by (auto simp: ownedIsCurrent_def)
  from c1 c2 show "n1 = n2" by simp
qed

lemma sameSessions_refl: "sameSessions b b"
  by (simp add: sameSessions_def)

lemma sameSessions_trans: "sameSessions a b \<Longrightarrow> sameSessions b c \<Longrightarrow> sameSessions a c"
  by (simp add: sameSessions_def)

lemma sameSessions_inv: "sameSessions b b' \<Longrightarrow> ownedIsCurrent b \<Longrightarrow> ownedIsCurrent b'"
  by (simp add: sameSessions_def ownedIsCurrent_def ownedBy_def loadSessionMetadata_def)

lemma executeTmux_same: "sameSessions b (snd (executeTmux env args b))"
  by (simp add: executeTmux_bridge sameSessions_def)

lemma capturePane_same: "sameSessions b (snd (capturePane env h b))"
  by (simp add: capturePane_def Let_def executeTmux_bridge sameSessions_def split: option.splits)

lemma listSessions_same: "sameSessions b (snd (listSessions env now b))"
  by (simp add: listSessions_def Let_def executeTmux_bridge sameSessions_def split: option.splits)

lemma waitReady_same:
  "waitReady env startWait clock b = Some r \<Longrightarrow> sameSessions b (snd r)"
proof (induction clock arbitrary: b)
  case Nil
  then show ?case by simp
next
  case (Cons t ts)
  let ?c = "capturePane env None b"
  have c: "sameSessions b (snd ?c)" by (rule capturePane_same)
  show ?case
  proof (cases "t - startWait < 30000")
    case False
    then show ?thesis using Cons.prems by (auto simp: sameSessions_refl)
  next
    case True
    show ?thesis
    proof (cases "fst ?c")
      case (Inl e)
      then show ?thesis using Cons.prems True c by (auto simp: Let_def)
    next
      case (Inr pane)
      show ?thesis
      proof (cases "js_includes pane (promptGlyph env)")
        case True
        then show ?thesis using Cons.prems \<open>t - startWait < 30000\<close> Inr c by (auto simp: Let_def)
      next
        case False
        then have "waitReady env startWait ts (snd ?c) = Some r"
          using Cons.prems True Inr by (simp add: Let_def)
        from Cons.IH [OF this] c show ?thesis by (rule sameSessions_trans [rotated])
      qed
    qed
  qed
qed

text \<open>Setting the current session and saving its metadata, on a bridge where no entry
  is owned: afterwards the only entry that can be owned is that of the current
  session.\<close>

lemma save_current_inv:
  assumes "ownedIsCurrent b" "currentSession b = None"
  shows "ownedIsCurrent (saveSessionMetadata (b\<lparr>currentSession := Some cs, tmuxLog := l\<rparr>))"
  using assms
  by (auto simp: ownedIsCurrent_def ownedBy_def saveSessionMetadata_def assignKey_def
        saveSessionMetadataRaw_def loadSessionMetadata_def split: option.splits if_splits)

lemma createSession_cases:
  assumes run: "createSession env now startWait clock requested resume b = Some r"
  shows "sameSessions b (snd r) \<or>
    (\<exists>b2 cs w. sameSessions b b2 \<and> sessionName cs = newSessionName (config b) now requested \<and>
       waitReady env startWait clock (saveSessionMetadata (b2\<lparr>currentSession := Some cs\<rparr>)) = Some w \<and>
       snd r = snd w)"
proof -
  define name where "name = newSessionName (config b) now requested"
  define args1 where "args1 = [asc ''new-session'', asc ''-d'', asc ''-s'', name, asc ''-c'',
                  configWorkingDir (config b), asc ''-x'', asc ''200'', asc ''-y'', asc ''50'',
                  claudePath (config b) @
            (case resume of None \<Rightarrow> [] | Some r \<Rightarrow> if r = [] then [] else asc '' --resume '' @ r)]"
  define r1 where "r1 = executeTmux env args1 b"
  define r2 where "r2 = executeTmux env (historyLimitArgs b name) (snd r1)"
  define created where "created = \<lparr> sessionName = name, windowId = asc ''0'', paneId = asc ''0'',
           workingDir = configWorkingDir (config b), isRunning = True,
           createdBy = telegram, isOwned = True, markedForExit = False,
           markedAt = None, lastActivity = now \<rparr>"
  define b3 where "b3 = saveSessionMetadata ((snd r2)\<lparr>currentSession := Some created\<rparr>)"
  have def: "createSession env now startWait clock requested resume b =
     (case fst r1 of
           None \<Rightarrow> Some (Inl TmuxFailed, snd r1)
         | Some _ \<Rightarrow>
              (case fst r2 of
                None \<Rightarrow> Some (Inl TmuxFailed, snd r2)
              | Some _ \<Rightarrow>
                  (case waitReady env startWait clock b3 of
                        None \<Rightarrow> None
                      | Some w \<Rightarrow>
                          (case fst w of
                             Inl e \<Rightarrow> Some (Inl e, snd w)
                           | Inr _ \<Rightarrow> Some (Inr (currentSession (snd w)), snd w)))))"
    unfolding createSession_def Let_def r1_def r2_def b3_def created_def args1_def name_def
    by (rule refl)
  have s1: "sameSessions b (snd r1)" unfolding r1_def by (rule executeTmux_same)
  have s2: "sameSessions b (snd r2)"
    unfolding r2_def by (rule sameSessions_trans [OF s1 executeTmux_same])
  show ?thesis
  proof (cases "fst r1")
    case None
    then have "snd r = snd r1" using run def by auto
    then show ?thesis using s1 by simp
  next
    case ok1: (Some o1)
    show ?thesis
    proof (cases "fst r2")
      case None
      then have "snd r = snd r2" using run def ok1 by auto
      then show ?thesis using s2 by simp
    next
      case ok2: (Some o2)
      show ?thesis
      proof (cases "waitReady env startWait clock b3")
        case None
        then show ?thesis using run def ok1 ok2 by simp
      next
        case (Some w)
        have "snd r = snd w"
        proof (cases "fst w")
          case (Inl e)
          then show ?thesis using run def ok1 ok2 Some by auto
        next
          case (Inr u)
          then show ?thesis using run def ok1 ok2 Some by auto
        qed
        moreover have "sessionName created = name" by (simp add: created_def)
        ultimately show ?thesis using s2 Some unfolding b3_def name_def by blast
      qed
    qed
  qed
qed

lemma save_current_inv':
  assumes "ownedIsCurrent b" "currentSession b = None"
  shows "ownedIsCurrent (saveSessionMetadata (b\<lparr>currentSession := Some cs\<rparr>))"
  using save_current_inv [OF assms, where cs = cs and l = "tmuxLog b"] by simp

lemma createSession_inv:
  assumes inv: "ownedIsCurrent b" and none: "currentSession b = None"
    and run: "createSession env now startWait clock requested resume b = Some r"
  shows "ownedIsCurrent (snd r)"
  using createSession_cases [OF run]
proof
  assume "sameSessions b (snd r)"
  then show ?thesis using inv by (rule sameSessions_inv)
next
  assume "\<exists>b2 cs w. sameSessions b b2 \<and>
       sessionName cs = newSessionName (config b) now requested \<and>
       waitReady env startWait clock (saveSessionMetadata (b2\<lparr>currentSession := Some cs\<rparr>)) = Some w \<and>
       snd r = snd w"
  then obtain b2 cs w where s: "sameSessions b b2"
    and w: "waitReady env startWait clock (saveSessionMetadata (b2\<lparr>currentSession := Some cs\<rparr>)) = Some w"
    and r: "snd r = snd w" by blast
  have inv2: "ownedIsCurrent b2" by (rule sameSessions_inv [OF s inv])
  have none2: "currentSession b2 = None" using s none by (simp add: sameSessions_def)
  have "ownedIsCurrent (saveSessionMetadata (b2\<lparr>currentSession := Some cs\<rparr>))"
    by (rule save_current_inv' [OF inv2 none2])
  from sameSessions_inv [OF waitReady_same [OF w] this] r show ?thesis by simp
qed

lemma attachToSession_inv:
  assumes inv: "ownedIsCurrent b" and none: "currentSession b = None"
  shows "ownedIsCurrent (snd (attachToSession env listNow now name b))"
proof -
  let ?ls = "listSessions env listNow b"
  have s: "sameSessions b (snd ?ls)" by (rule listSessions_same)
  have invl: "ownedIsCurrent (snd ?ls)" by (rule sameSessions_inv [OF s inv])
  have nonel: "currentSession (snd ?ls) = None" using s none by (simp add: sameSessions_def)
  show ?thesis
  proof (cases "List.find (\<lambda>s. sessionName s = name) (fst ?ls)")
    case None
    then show ?thesis using invl by (simp add: attachToSession_def Let_def)
  next
    case (Some found)
    let ?target = "found\<lparr>isOwned := True, lastActivity := now\<rparr>"
    let ?b1 = "(snd ?ls)\<lparr>currentSession := Some ?target\<rparr>"
    have e: "snd (executeTmux env (historyLimitArgs ?b1 name) ?b1) =
             (snd ?ls)\<lparr>currentSession := Some ?target,
                         tmuxLog := tmuxLog (snd ?ls) @ [historyLimitArgs ?b1 name]\<rparr>"
      by (simp add: executeTmux_bridge)
    have "ownedIsCurrent (saveSessionMetadata (snd (executeTmux env (historyLimitArgs ?b1 name) ?b1)))"
      unfolding e by (rule save_current_inv [OF invl nonel])
    then show ?thesis using Some by (simp add: attachToSession_def Let_def)
  qed
qed

lemma assignKey_other: "n \<noteq> name \<Longrightarrow> assignKey table name v n = table n"
  by (simp add: assignKey_def)

lemma assignKey_same: "assignKey table name v name = Some m \<Longrightarrow> m = v"
  by (auto simp: assignKey_def split: if_splits)

lemma markForExit_inv:
  assumes inv: "ownedIsCurrent b"
  shows "ownedIsCurrent (markForExit now b)"
proof (cases "currentSession b")
  case None
  then show ?thesis using inv by (simp add: markForExit_def)
next
  case (Some cs)
  have others: "\<And>n. n \<noteq> sessionName cs \<Longrightarrow> \<not> ownedBy b n"
    using inv Some by (auto simp: ownedIsCurrent_def)
  have meta: "loadSessionMetadata (markForExit now b) =
      assignKey (loadSessionMetadata b) (sessionName cs)
        (metadataOf (if createdBy cs = telegram
                     then cs\<lparr>markedForExit := True, markedAt := Some now, isOwned := False\<rparr>
                     else cs\<lparr>isOwned := False\<rparr>))"
    using Some
    by (simp add: markForExit_def Let_def saveSessionMetadata_def saveSessionMetadataRaw_def
          loadSessionMetadata_def)
  have "\<not> ownedBy (markForExit now b) n" for n
  proof (cases "n = sessionName cs")
    case False
    then show ?thesis using others [OF False]
      by (simp add: ownedBy_def meta assignKey_other)
  next
    case True
    let ?v = "metadataOf (if createdBy cs = telegram
                     then cs\<lparr>markedForExit := True, markedAt := Some now, isOwned := False\<rparr>
                     else cs\<lparr>isOwned := False\<rparr>)"
    have free: "\<not> metaIsOwned ?v" by (simp add: metadataOf_def)
    show ?thesis
    proof (cases "assignKey (loadSessionMetadata b) (sessionName cs) ?v (sessionName cs)")
      case None
      then show ?thesis by (simp add: ownedBy_def meta True)
    next
      case (Some m)
      from assignKey_same [OF Some] free show ?thesis
        by (simp add: ownedBy_def meta True Some)
    qed
  qed
  then show ?thesis by (simp add: ownedIsCurrent_def)
qed

lemma killSession_inv:
  assumes inv: "ownedIsCurrent b"
  shows "ownedIsCurrent (killSession env name b)"
proof -
  let ?r = "executeTmux env [asc ''kill-session'', asc ''-t'', name] b"
  have s: "sameSessions b (snd ?r)" by (rule executeTmux_same)
  have invr: "ownedIsCurrent (snd ?r)" by (rule sameSessions_inv [OF s inv])
  show ?thesis
  proof (cases "fst ?r")
    case None
    then show ?thesis using invr by (simp add: killSession_def Let_def)
  next
    case (Some out)
    show ?thesis
      using Some invr
      by (auto simp: killSession_def Let_def ownedIsCurrent_def ownedBy_def
            saveSessionMetadataRaw_def loadSessionMetadata_def executeTmux_bridge
            split: option.splits if_splits)
  qed
qed

lemma timers_inv:
  "ownedIsCurrent b \<Longrightarrow> ownedIsCurrent (b\<lparr>cleanupTimers := t\<rparr>)"
  by (simp add: ownedIsCurrent_def ownedBy_def loadSessionMetadata_def)

lemma cleanupSession_inv:
  assumes inv: "ownedIsCurrent b"
  shows "ownedIsCurrent (cleanupSession env listNow name b)"
proof -
  let ?ls = "listSessions env listNow b"
  have invl: "ownedIsCurrent (snd ?ls)"
    by (rule sameSessions_inv [OF listSessions_same inv])
  have "ownedIsCurrent (case List.find (\<lambda>s. sessionName s = name) (fst ?ls) of
                  None \<Rightarrow> snd ?ls
                | Some s \<Rightarrow> if markedForExit s then killSession env name (snd ?ls) else snd ?ls)"
    using invl killSession_inv [OF invl] by (simp split: option.splits)
  then show ?thesis by (simp add: cleanupSession_def Let_def timers_inv)
qed

lemma applyOp_inv:
  assumes "ownedIsCurrent b" "opAllowed x b" "applyOp env x b = Some b'"
  shows "ownedIsCurrent b'"
proof (cases x)
  case (CreateSession now startWait clock requested resume)
  with assms obtain r where "createSession env now startWait clock requested resume b = Some r"
    "b' = snd r" by auto
  with assms CreateSession show ?thesis using createSession_inv by simp
next
  case (AttachToSession listNow now name)
  with assms show ?thesis using attachToSession_inv by auto
next
  case (MarkForExit now)
  with assms show ?thesis using markForExit_inv by auto
next
  case (KillSession name)
  with assms show ?thesis using killSession_inv by auto
next
  case (CleanupSession listNow name)
  with assms show ?thesis using cleanupSession_inv by auto
qed

text \<open>
  C9, as the claim states it, fails.  The claim: after any sequence of bridge operations
  at most one session of the metadata file has its owned flag set.  After
  \<open>createSession("a")\<close> and \<open>createSession("b")\<close>, and after \<open>createSession("a")\<close>
  and \<open>attachToSession("work")\<close>, two entries are owned: creating or attaching writes
  the entry of the new current session only, and the entry of the session that was
  current before keeps its flag.
\<close>

theorem second_session_leaves_first_owned:
  "(case runOps sessionsEnv
           [CreateSession 1000 1001 [1002] (Some (asc ''a'')) None,
            CreateSession 2000 2001 [2002] (Some (asc ''b'')) None] idleBridge of
      None \<Rightarrow> False
    | Some b' \<Rightarrow> ownedBy b' (asc ''a'') \<and> ownedBy b' (asc ''b'')) \<and>
   (case runOps sessionsEnv
           [CreateSession 1000 1001 [1002] (Some (asc ''a'')) None,
            AttachToSession 2000 2001 (asc ''work'')] idleBridge of
      None \<Rightarrow> False
    | Some b' \<Rightarrow> ownedBy b' (asc ''a'') \<and> ownedBy b' (asc ''work'')) \<and>
   asc ''a'' \<noteq> asc ''b'' \<and> asc ''a'' \<noteq> asc ''work''"
  by code_simp

text \<open>
  C9, amended.  Start from a bridge in which no entry but that of the current session is
  owned, and run any sequence of \<open>createSession\<close>, \<open>attachToSession\<close>, \<open>markForExit\<close>,
  \<open>killSession\<close> and \<open>cleanupSession\<close> in which \<open>createSession\<close> and
  \<open>attachToSession\<close> are called only while the bridge has no current session (that
  is, at the start, or after \<open>markForExit\<close>, or after the current session was killed).
  Then again no entry but that of the current session is owned, and so at most one
  entry is.
\<close>

theorem guarded_operations_keep_one_owner:
  assumes "ownedIsCurrent b" "opsAllowed env ops b" "runOps env ops b = Some b'"
  shows "ownedIsCurrent b' \<and> atMostOneOwned b'"
proof -
  have "ownedIsCurrent b'" using assms
  proof (induction ops arbitrary: b)
    case Nil
    then show ?case by simp
  next
    case (Cons x xs)
    from Cons.prems(3) obtain b1 where b1: "applyOp env x b = Some b1"
      and rest: "runOps env xs b1 = Some b'" by (auto split: option.splits)
    have "ownedIsCurrent b1" using applyOp_inv [OF Cons.prems(1) _ b1] Cons.prems(2) by simp
    moreover have "opsAllowed env xs b1" using Cons.prems(2) b1 by simp
    ultimately show ?case using Cons.IH rest by blast
  qed
  then show ?thesis by (simp add: ownedIsCurrent_atMostOne)
qed

theorem guarded_operations_keep_one_owner_witness:
  "ownedIsCurrent idleBridge \<and>
   opsAllowed sessionsEnv
     [CreateSession 1000 1001 [1002] (Some (asc ''a'')) None, MarkForExit 3000,
      AttachToSession 4000 4001 (asc ''work'')] idleBridge \<and>
   (case runOps sessionsEnv
      [CreateSession 1000 1001 [1002] (Some (asc ''a'')) None, MarkForExit 3000,
       AttachToSession 4000 4001 (asc ''work'')] idleBridge of
      None \<Rightarrow> False
    | Some b' \<Rightarrow> atMostOneOwned b' \<and> ownedBy b' (asc ''work'') \<and> \<not> ownedBy b' (asc ''a''))"
proof -
  let ?ops = "[CreateSession 1000 1001 [1002] (Some (asc ''a'')) None, MarkForExit 3000,
      AttachToSession 4000 4001 (asc ''work'')]"
  have inv: "ownedIsCurrent idleBridge"
    by (simp add: ownedIsCurrent_def ownedBy_def loadSessionMetadata_def idleBridge_def)
  have ok: "opsAllowed sessionsEnv ?ops idleBridge" by code_simp
  have "runOps sessionsEnv ?ops idleBridge \<noteq> None" by code_simp
  then obtain b' where run: "runOps sessionsEnv ?ops idleBridge = Some b'" by blast
  have facts: "case runOps sessionsEnv ?ops idleBridge of None \<Rightarrow> False
     | Some b' \<Rightarrow> ownedBy b' (asc ''work'') \<and> \<not> ownedBy b' (asc ''a'')"
    by code_simp
  from guarded_operations_keep_one_owner [OF inv ok run]
  have "atMostOneOwned b'" by simp
  with inv ok facts run show ?thesis by simp
qed

end
